theory Spec2Isabelle
  imports Complex_Main
begin

section \<open>Conventions of the embedding\<close>

text \<open>
  The repository is a set of Vue single-file components written in TypeScript. Two of them
  carry logic: the chat widget (\<^verbatim>\<open>src/unnamed/part_002\<close>, with the same streaming code in
  \<^verbatim>\<open>MiniChat.vue\<close>) and the flight map (the second component of \<^verbatim>\<open>Timeline.vue\<close>, lines
  91-973, with an older revision at lines 1710-2287).

  \<^item> A JavaScript string is a \<^typ>\<open>string\<close> holding its UTF-8 bytes; string equality,
    concatenation and splitting at the line feed are the same on bytes as on code units.
  \<^item> A JavaScript number that holds a count is a \<^typ>\<open>nat\<close>; a coordinate or an opacity is a
    \<^typ>\<open>real\<close> (rounding of IEEE doubles is not modelled).
  \<^item> Reactive state (\<^verbatim>\<open>ref\<close>) is a record that every handler takes and returns.
  \<^item> What a handler learns from the outside (the network, the clock, \<^verbatim>\<open>Math.random\<close>,
    \<^verbatim>\<open>JSON.parse\<close>) is an argument of its model.
\<close>

section \<open>Chat widget: data\<close>

datatype Role = User | Assistant | System

record ChatMessage =
  role :: Role
  content :: string
  timestamp :: "nat option"

text \<open>The ten fallback messages, \<^verbatim>\<open>WITTY_MESSAGES\<close> (part_002, lines 29-40).\<close>

definition WITTY_MESSAGES :: "string list" where
  "WITTY_MESSAGES =
   [''Oh my, looks like something is wrong with Advocado '' @ [CHR 0xF0, CHR 0x9F, CHR 0xA5, CHR 0x91] @ ''. You can [read about Steve here](/about) or try again later!'',
    ''Oops! Advocado seems to have taken a little nap '' @ [CHR 0xF0, CHR 0x9F, CHR 0x98, CHR 0xB4] @ ''. While you wait, why not [learn about Steve](/about)? Or try again in a moment!'',
    ''Looks like Advocado is having a bad hair day! '' @ [CHR 0xF0, CHR 0x9F, CHR 0x8C, CHR 0xAA, CHR 0xEF, CHR 0xB8, CHR 0x8F] @ '' Try again soon, or [check out Steve's profile](/about)!'',
    ''Advocado is feeling a bit under the weather today '' @ [CHR 0xF0, CHR 0x9F, CHR 0xA4, CHR 0x92] @ ''. Please try again later, or [read about Steve](/about)!'',
    ''Advocado is currently doing some avocado yoga to recover '' @ [CHR 0xF0, CHR 0x9F, CHR 0xA7, CHR 0x98, CHR 0xE2, CHR 0x80, CHR 0x8D, CHR 0xE2, CHR 0x99, CHR 0x82, CHR 0xEF, CHR 0xB8, CHR 0x8F] @ ''. [Browse Steve's info](/about) or try again in a bit!'',
    ''Looks like Advocado spilled its guacamole! '' @ [CHR 0xF0, CHR 0x9F, CHR 0xA5, CHR 0x91, CHR 0xF0, CHR 0x9F, CHR 0x92, CHR 0xA6] @ '' While we clean up, [learn about Steve](/about) or try again later!'',
    ''Advocado is currently on a quick coffee break '' @ [CHR 0xE2, CHR 0x98, CHR 0x95] @ ''. [Read Steve's story](/about) or try again in a moment!'',
    ''Looks like Advocado is having a moment... '' @ [CHR 0xF0, CHR 0x9F, CHR 0xA4, CHR 0x94] @ '' Try again soon, or [discover more about Steve](/about)!'',
    ''Advocado is practicing its avocado meditation '' @ [CHR 0xF0, CHR 0x9F, CHR 0xA7, CHR 0x98, CHR 0xE2, CHR 0x80, CHR 0x8D, CHR 0xE2, CHR 0x99, CHR 0x80, CHR 0xEF, CHR 0xB8, CHR 0x8F] @ ''. Please try again later, or [explore Steve's background](/about)!'',
    ''Looks like Advocado is doing some emergency guac maintenance! '' @ [CHR 0xF0, CHR 0x9F, CHR 0x9B, CHR 0xA0, CHR 0xEF, CHR 0xB8, CHR 0x8F] @ '' [Check out Steve's profile](/about) or try again in a bit!'']"

datatype Feedback = Good | Bad

text \<open>
  The reactive state of one tab that the modelled handlers read or write, together with the
  browser's storage for the origin (\<^verbatim>\<open>localStorage\<close>), which all tabs share.
\<close>

record ChatState =
  messages :: "ChatMessage list"
  loading :: bool
  isClient :: bool
  showFeedbackModal :: bool
  feedback :: "Feedback option"
  threadId :: "string option"
  isChatOpen :: bool
  userInput :: string
  isCompactMode :: bool
  hasStartedChat :: bool
  localStorage :: "string \<rightharpoonup> string"

section \<open>Chat widget: saving the conversation\<close>

text \<open>
  \<^verbatim>\<open>isWittyMessage(msg, index)\<close> (part_002, lines 130-145) reads the component's message
  list, which is the first argument here. \<^verbatim>\<open>index < messages.value.length - 1\<close> is a
  comparison of numbers, so it is written on \<^typ>\<open>int\<close>.
\<close>

definition isWittyMessage :: "ChatMessage list \<Rightarrow> ChatMessage \<Rightarrow> nat \<Rightarrow> bool" where
  "isWittyMessage msgs msg index =
    (if role msg = Assistant \<and> content msg \<in> set WITTY_MESSAGES then True
     else if role msg = User \<and> int index < int (length msgs) - 1 then
       (let nextMessage = msgs ! (index + 1)
        in role nextMessage = Assistant \<and> content nextMessage \<in> set WITTY_MESSAGES)
     else False)"

text \<open>\<^verbatim>\<open>messages.value.filter((msg, index) => !isWittyMessage(msg, index))\<close>.\<close>

definition messagesToSave :: "ChatMessage list \<Rightarrow> ChatMessage list" where
  "messagesToSave msgs =
     map fst (filter (\<lambda>(msg, index). \<not> isWittyMessage msgs msg index)
                     (zip msgs [0..<length msgs]))"

text \<open>
  \<^verbatim>\<open>saveMessagesToStorage\<close> (part_002, lines 147-151). \<^verbatim>\<open>JSON.stringify\<close> is the
  argument \<open>stringify\<close>.
\<close>

definition saveMessagesToStorage ::
  "(ChatMessage list \<Rightarrow> string) \<Rightarrow> ChatState \<Rightarrow> ChatState" where
  "saveMessagesToStorage stringify st =
    (if \<not> isClient st then st
     else st\<lparr>localStorage :=
            (localStorage st)(''chatMessages'' \<mapsto> stringify (messagesToSave (messages st)))\<rparr>)"

section \<open>Chat widget: storage events from other tabs\<close>

text \<open>
  A \<^verbatim>\<open>StorageEvent\<close> carries the key that changed and its new text (\<^verbatim>\<open>null\<close> when the
  item was removed).
\<close>

record StorageEvent =
  key :: "string option"
  newValue :: "string option"

text \<open>
  What \<^verbatim>\<open>JSON.parse\<close> followed by \<^verbatim>\<open>Array.isArray\<close> makes of the text of the
  \<^verbatim>\<open>chatMessages\<close> item: a syntax error is thrown, or the value is not an array, or it is
  an array, read at the element type \<^verbatim>\<open>Message\<close> that the handler declares for it.
\<close>

datatype ParsedMessages = SyntaxError | NotArray | MessageArray "ChatMessage list"

text \<open>
  \<^verbatim>\<open>handleStorageChange\<close> (part_002, lines 161-227); \<open>parse\<close> is \<^verbatim>\<open>JSON.parse\<close> on
  the text of the item. \<^verbatim>\<open>event.newValue || "[]"\<close> replaces \<^verbatim>\<open>null\<close> and the empty string.
\<close>

definition handleStorageChange ::
  "(string \<Rightarrow> ParsedMessages) \<Rightarrow> ChatState \<Rightarrow> StorageEvent \<Rightarrow> ChatState" where
  "handleStorageChange parse st event =
    (if \<not> isClient st then st
     else if key event = Some ''miniChatOpen'' then
       st\<lparr>isChatOpen := (newValue event = Some ''true'')\<rparr>
     else if key event = Some ''chatMessages'' then
       (case parse (case newValue event of None \<Rightarrow> ''[]''
                                         | Some v \<Rightarrow> if v = [] then ''[]'' else v) of
          MessageArray newMessages \<Rightarrow>
            (let hasNewUserMessages =
                   (\<exists>msg \<in> set newMessages.
                      role msg = User \<and>
                      \<not> (\<exists>existingMsg \<in> set (messages st).
                            role existingMsg = role msg \<and>
                            content existingMsg = content msg \<and>
                            timestamp existingMsg = timestamp msg));
                 st1 = (if hasNewUserMessages
                        then st\<lparr>isChatOpen := True,
                                localStorage := (localStorage st)(''miniChatOpen'' \<mapsto> ''true'')\<rparr>
                        else st);
                 st2 = st1\<lparr>messages := newMessages\<rparr>
             in if length newMessages > 0
                then st2\<lparr>isCompactMode := False, hasStartedChat := True\<rparr>
                else st2\<lparr>isCompactMode := True, hasStartedChat := False\<rparr>)
        | NotArray \<Rightarrow> st
        | SyntaxError \<Rightarrow> st\<lparr>messages := [], isCompactMode := True, hasStartedChat := False\<rparr>)
     else if key event = Some ''hadChatInteraction'' then
       (if newValue event = Some ''true''
        then st\<lparr>isChatOpen := True,
                localStorage := (localStorage st)(''miniChatOpen'' \<mapsto> ''true'')\<rparr>
        else st)
     else if key event = Some ''chatEnding'' then
       (if newValue event = Some ''true'' \<and> showFeedbackModal st
        then st\<lparr>showFeedbackModal := False, feedback := None\<rparr>
        else st)
     else if key event = Some ''threadId'' then
       (let st1 = st\<lparr>threadId := newValue event\<rparr>
        in if newValue event = None \<or> newValue event = Some []
           then st1\<lparr>messages := [], isCompactMode := True, hasStartedChat := False,
                    localStorage := (localStorage st1)(''chatEnding'' := None)\<rparr>
           else st1)
     else st)"

section \<open>Chat widget: sending a message and reading the streamed reply\<close>

subsection \<open>Strings\<close>

text \<open>
  \<^verbatim>\<open>s.trim()\<close> strips the white space and line terminators of ECMAScript from both ends,
  so \<^verbatim>\<open>!s.trim()\<close> and \<^verbatim>\<open>s.trim() === ""\<close> hold exactly when \<open>s\<close> consists of such
  characters only. On UTF-8 bytes these are the bytes 09-0D and 20, the two-byte sequence
  C2 A0 (U+00A0) and the three-byte sequences E1 9A 80 (U+1680), E2 80 80 to E2 80 8A
  (U+2000-U+200A), E2 80 A8, E2 80 A9, E2 80 AF (U+2028, U+2029, U+202F), E2 81 9F (U+205F),
  E3 80 80 (U+3000) and EF BB BF (U+FEFF).
\<close>

definition ascii_space :: "char \<Rightarrow> bool" where
  "ascii_space c = (c \<in> {CHR 0x09, CHR 0x0A, CHR 0x0B, CHR 0x0C, CHR 0x0D, CHR 0x20})"

definition space2 :: "string \<Rightarrow> bool" where
  "space2 s = (take 2 s = [CHR 0xC2, CHR 0xA0])"

definition space3 :: "string \<Rightarrow> bool" where
  "space3 s =
     (take 3 s \<in> {[CHR 0xE1, CHR 0x9A, CHR 0x80], [CHR 0xE2, CHR 0x80, CHR 0xA8],
                  [CHR 0xE2, CHR 0x80, CHR 0xA9], [CHR 0xE2, CHR 0x80, CHR 0xAF],
                  [CHR 0xE2, CHR 0x81, CHR 0x9F], [CHR 0xE3, CHR 0x80, CHR 0x80],
                  [CHR 0xEF, CHR 0xBB, CHR 0xBF]} \<or>
      (take 2 s = [CHR 0xE2, CHR 0x80] \<and> length s \<ge> 3 \<and>
       (of_char (s ! 2) :: nat) \<in> {0x80..0x8A}))"

function trim_is_empty :: "string \<Rightarrow> bool" where
  "trim_is_empty s =
     (if s = [] then True
      else if ascii_space (hd s) then trim_is_empty (drop 1 s)
      else if space2 s then trim_is_empty (drop 2 s)
      else if space3 s then trim_is_empty (drop 3 s)
      else False)"
  by pat_completeness auto
termination
  by (relation "measure length") auto

declare trim_is_empty.simps [simp del]

text \<open>
  The messages on the page. The template of the component (part_002, lines 520-975) shows
  the chat window when \<^verbatim>\<open>isClient\<close> and \<^verbatim>\<open>isChatOpen\<close> hold, and in it the message list
  unless \<^verbatim>\<open>isCompactMode\<close> holds (lines 521, 524, 533, 560, 681). The list has one bubble
  for each message with \<^verbatim>\<open>msg.content.trim()\<close> not empty (lines 735-741).
\<close>

definition renderedMessages :: "ChatState \<Rightarrow> ChatMessage list" where
  "renderedMessages st =
     (if isClient st \<and> isChatOpen st \<and> \<not> isCompactMode st
      then filter (\<lambda>msg. \<not> trim_is_empty (content msg)) (messages st)
      else [])"

text \<open>\<^verbatim>\<open>s.split("\n")\<close>: the pieces between line feeds, always at least one.\<close>

fun split_lines :: "string \<Rightarrow> string list" where
  "split_lines [] = [[]]"
| "split_lines (c # cs) =
     (if c = CHR 0x0A then [] # split_lines cs
      else (c # hd (split_lines cs)) # tl (split_lines cs))"

subsection \<open>The JSON records of the stream\<close>

text \<open>
  A value that \<^verbatim>\<open>JSON.parse\<close> returns. An object lists its own properties, each key once.
  \<^verbatim>\<open>undefined\<close> is not a JSON value: an expression that may be undefined has type
  \<^typ>\<open>'a option\<close> with \<^const>\<open>None\<close> for it.
\<close>

datatype json =
  JNull | JBool bool | JNumber real | JString string
| JArray "json list" | JObject "(string \<times> json) list"

datatype 'a completion = Throws | Returns 'a

text \<open>
  \<^verbatim>\<open>x?.name\<close> for a name that no built-in prototype defines (here \<^verbatim>\<open>delta\<close> and
  \<^verbatim>\<open>content\<close>): undefined on undefined and null, the own property on an object, undefined
  on every other value.
\<close>

fun optional_member :: "json option \<Rightarrow> string \<Rightarrow> json option" where
  "optional_member (Some (JObject props)) name = map_of props name"
| "optional_member _ name = None"

text \<open>
  \<^verbatim>\<open>parsed.choices[0]?.delta\<close>. Reading \<^verbatim>\<open>choices\<close> of null throws a TypeError, and so
  does indexing when \<^verbatim>\<open>parsed.choices\<close> is undefined or null. Element 0 of a string, number
  or boolean is a string or undefined, and neither has a property \<^verbatim>\<open>delta\<close>.
\<close>

definition choices0_delta :: "json \<Rightarrow> json option completion" where
  "choices0_delta parsed =
     (case parsed of
        JNull \<Rightarrow> Throws
      | JObject props \<Rightarrow>
          (case map_of props ''choices'' of
             None \<Rightarrow> Throws
           | Some JNull \<Rightarrow> Throws
           | Some (JArray elems) \<Rightarrow>
               Returns (optional_member (if elems = [] then None else Some (hd elems)) ''delta'')
           | Some (JObject cprops) \<Rightarrow> Returns (optional_member (map_of cprops ''0'') ''delta'')
           | Some _ \<Rightarrow> Returns None)
      | _ \<Rightarrow> Throws)"

text \<open>The truth value of a JavaScript value in a condition.\<close>

fun truthy :: "json option \<Rightarrow> bool" where
  "truthy None = False"
| "truthy (Some JNull) = False"
| "truthy (Some (JBool b)) = b"
| "truthy (Some (JNumber x)) = (x \<noteq> 0)"
| "truthy (Some (JString s)) = (s \<noteq> [])"
| "truthy (Some (JArray _)) = True"
| "truthy (Some (JObject _)) = True"

text \<open>
  The text that \<^verbatim>\<open>currentAssistantContent += delta.content\<close> appends: the string itself, or
  the conversion of another value to a string, which is the argument \<open>toStr\<close>.
\<close>

fun appended_text :: "(json \<Rightarrow> string) \<Rightarrow> json \<Rightarrow> string" where
  "appended_text toStr (JString s) = s"
| "appended_text toStr v = toStr v"

text \<open>
  What one line of the stream contributes (part_002, lines 294-310): nothing when the line is
  blank, when \<^verbatim>\<open>JSON.parse\<close> throws (\<open>parse line = None\<close>), when reading the delta throws,
  or when \<^verbatim>\<open>delta?.content\<close> is falsy; every exception is caught and logged inside the loop.
\<close>

definition line_delta ::
  "(string \<Rightarrow> json option) \<Rightarrow> (json \<Rightarrow> string) \<Rightarrow> string \<Rightarrow> string option" where
  "line_delta parse toStr line =
     (if trim_is_empty line then None
      else case parse line of
             None \<Rightarrow> None
           | Some parsed \<Rightarrow>
               (case choices0_delta parsed of
                  Throws \<Rightarrow> None
                | Returns delta \<Rightarrow>
                    (let c = optional_member delta ''content''
                     in if truthy c then map_option (appended_text toStr) c else None)))"

subsection \<open>The reading loop\<close>

text \<open>
  The local variables of \<^verbatim>\<open>sendMessage\<close> that live across the reads of the stream, next
  to the component state.
\<close>

record StreamState =
  chat :: ChatState
  buffer :: string
  currentAssistantContent :: string
  assistantMessageAdded :: bool

text \<open>
  The body of \<^verbatim>\<open>for (const line of lines)\<close> (part_002, lines 293-311). \<open>now\<close> is the value
  of \<^verbatim>\<open>Date.now()\<close> when the assistant message is pushed. The assignment to the last
  message is written with the index \<^verbatim>\<open>length - 1\<close> as in the source; the list is not empty
  there, since the user's message and then the assistant's have been pushed. Scrolling acts
  on the page only.
\<close>

definition process_line ::
  "(string \<Rightarrow> json option) \<Rightarrow> (json \<Rightarrow> string) \<Rightarrow> nat \<Rightarrow> StreamState \<Rightarrow> string \<Rightarrow> StreamState" where
  "process_line parse toStr now s line =
     (case line_delta parse toStr line of
        None \<Rightarrow> s
      | Some text \<Rightarrow>
          (let s1 = (if \<not> assistantMessageAdded s
                     then s\<lparr>chat := (chat s)\<lparr>messages := messages (chat s) @
                                 [\<lparr>role = Assistant, content = [], timestamp = Some now\<rparr>]\<rparr>,
                            assistantMessageAdded := True\<rparr>
                     else s);
               cur = currentAssistantContent s1 @ text;
               msgs = messages (chat s1)
           in s1\<lparr>currentAssistantContent := cur,
                 chat := (chat s1)\<lparr>messages :=
                           msgs[length msgs - 1 := (msgs ! (length msgs - 1))\<lparr>content := cur\<rparr>]\<rparr>\<rparr>))"

text \<open>
  The \<^verbatim>\<open>while (true)\<close> loop over the reads that deliver data (part_002, lines 285-312).
  Each element of the list is the text that \<^verbatim>\<open>decoder.decode(value, { stream: true })\<close>
  returns for one read. \<^verbatim>\<open>lines.pop() || ""\<close> is the last piece of the split.
\<close>

fun read_chunks ::
  "(string \<Rightarrow> json option) \<Rightarrow> (json \<Rightarrow> string) \<Rightarrow> nat \<Rightarrow> StreamState \<Rightarrow> string list \<Rightarrow> StreamState" where
  "read_chunks parse toStr now s [] = s"
| "read_chunks parse toStr now s (chunk # rest) =
     (let lines = split_lines (buffer s @ chunk);
          s1 = s\<lparr>buffer := last lines\<rparr>;
          s2 = foldl (process_line parse toStr now) s1 (butlast lines)
      in read_chunks parse toStr now s2 rest)"

subsection \<open>The request\<close>

text \<open>
  How the reads end: \<^verbatim>\<open>reader.read()\<close> reports \<^verbatim>\<open>done\<close>, or it rejects (an error
  in mid-stream).
\<close>

datatype ReadEnd = Done | ReadFailed

text \<open>
  What the handler sees of the response: \<^verbatim>\<open>response.ok\<close>, the header
  \<^verbatim>\<open>lb-thread-id\<close>, and the body (\<^verbatim>\<open>null\<close> is \<^const>\<open>None\<close>) as the texts of its reads and
  the way they end. \<^verbatim>\<open>fetch\<close> itself rejects on a network error.
\<close>

record Response =
  ok :: bool
  threadIdHeader :: "string option"
  body :: "(string list \<times> ReadEnd) option"

datatype FetchResult = Rejected | Resolved Response

text \<open>The three readings of \<^verbatim>\<open>Date.now()\<close>; each call site runs at most once per send.\<close>

record Clock =
  userAt :: nat
  assistantAt :: nat
  fallbackAt :: nat

text \<open>
  \<^verbatim>\<open>getRandomWittyMessage\<close> (part_002, lines 89-90); the argument is the value of
  \<^verbatim>\<open>Math.random()\<close>, a number from 0 up to but not including 1.
\<close>

definition getRandomWittyMessage :: "real \<Rightarrow> string" where
  "getRandomWittyMessage random =
     WITTY_MESSAGES ! nat \<lfloor>random * real (length WITTY_MESSAGES)\<rfloor>"

text \<open>The \<^verbatim>\<open>catch\<close> block of \<^verbatim>\<open>sendMessage\<close> (part_002, lines 313-327).\<close>

definition on_stream_error :: "real \<Rightarrow> nat \<Rightarrow> StreamState \<Rightarrow> StreamState" where
  "on_stream_error random now s =
     (let msgs = messages (chat s)
      in if \<not> assistantMessageAdded s then
           s\<lparr>chat := (chat s)\<lparr>messages := msgs @
                 [\<lparr>role = Assistant, content = getRandomWittyMessage random,
                   timestamp = Some now\<rparr>]\<rparr>\<rparr>
         else if trim_is_empty (currentAssistantContent s) then
           s\<lparr>chat := (chat s)\<lparr>messages :=
                 msgs[length msgs - 1 :=
                        (msgs ! (length msgs - 1))\<lparr>content := getRandomWittyMessage random\<rparr>]\<rparr>\<rparr>
         else s)"

text \<open>
  \<^verbatim>\<open>sendMessage\<close> (part_002, lines 230-334; the same \<^verbatim>\<open>try\<close> and \<^verbatim>\<open>catch\<close> blocks are
  in MiniChat.vue, lines 146-232), in three parts. The model runs the handler from start to
  end without another handler of the tab in between.

  First, lines 233-254: the user's message is pushed, the chat is expanded on the first
  message (\<^verbatim>\<open>expandToFullMode\<close>), the interaction is recorded and the input is cleared.
\<close>

definition request_state :: "Clock \<Rightarrow> ChatState \<Rightarrow> ChatState" where
  "request_state clock st =
     (let isFirstMessage = (length (messages st) = 0);
          userMessage = \<lparr>role = User, content = userInput st, timestamp = Some (userAt clock)\<rparr>;
          st1 = st\<lparr>messages := messages st @ [userMessage]\<rparr>;
          st2 = (if isFirstMessage then st1\<lparr>isCompactMode := False, hasStartedChat := True\<rparr>
                 else st1);
          st3 = (if isClient st2
                 then st2\<lparr>localStorage := (localStorage st2)(''hadChatInteraction'' \<mapsto> ''true'')\<rparr>
                 else st2)
      in st3\<lparr>loading := True, userInput := []\<rparr>)"

text \<open>
  Then the \<^verbatim>\<open>try\<close> block with its \<^verbatim>\<open>catch\<close> (lines 256-327): every \<^verbatim>\<open>throw\<close> and every
  rejected promise of the block goes to \<^const>\<open>on_stream_error\<close>.
\<close>

definition stream_reply ::
  "(string \<Rightarrow> json option) \<Rightarrow> (json \<Rightarrow> string) \<Rightarrow> Clock \<Rightarrow> real \<Rightarrow> FetchResult \<Rightarrow>
   ChatState \<Rightarrow> StreamState" where
  "stream_reply parse toStr clock random fetched st =
     (let s0 = \<lparr>chat = st, buffer = [], currentAssistantContent = [],
                assistantMessageAdded = False\<rparr>;
          caught = on_stream_error random (fallbackAt clock)
      in case fetched of
           Rejected \<Rightarrow> caught s0
         | Resolved response \<Rightarrow>
             if \<not> ok response then caught s0
             else case body response of
                    None \<Rightarrow> caught s0
                  | Some (chunks, ending) \<Rightarrow>
                      let s1 = (case threadIdHeader response of
                                  None \<Rightarrow> s0
                                | Some h \<Rightarrow>
                                    if h \<noteq> [] \<and> isClient st
                                    then s0\<lparr>chat := st\<lparr>localStorage :=
                                                  (localStorage st)(''threadId'' \<mapsto> h),
                                                threadId := Some h\<rparr>\<rparr>
                                    else s0);
                          s2 = read_chunks parse toStr (assistantAt clock) s1 chunks
                      in case ending of Done \<Rightarrow> s2 | ReadFailed \<Rightarrow> caught s2)"

text \<open>Last, the guard of line 231 and the \<^verbatim>\<open>finally\<close> block (lines 328-333).\<close>

definition sendMessage ::
  "(string \<Rightarrow> json option) \<Rightarrow> (json \<Rightarrow> string) \<Rightarrow> Clock \<Rightarrow> real \<Rightarrow> FetchResult \<Rightarrow>
   ChatState \<Rightarrow> ChatState" where
  "sendMessage parse toStr clock random fetched st =
     (if trim_is_empty (userInput st) then st
      else (chat (stream_reply parse toStr clock random fetched (request_state clock st)))
             \<lparr>loading := False\<rparr>)"

subsection \<open>What the specification says of the stream\<close>

text \<open>
  The specification speaks of the complete, newline-terminated lines of the stream. This is
  that notion, written from the specification and independent of \<^const>\<open>split_lines\<close>: the
  text before each line feed, in order; what follows the last line feed is not a line.
\<close>

function spec_complete_lines :: "string \<Rightarrow> string list" where
  "spec_complete_lines s =
     (if CHR 0x0A \<in> set s
      then takeWhile (\<lambda>c. c \<noteq> CHR 0x0A) s #
           spec_complete_lines (drop 1 (dropWhile (\<lambda>c. c \<noteq> CHR 0x0A) s))
      else [])"
  by pat_completeness auto
termination
proof (relation "measure length", goal_cases)
  case 1
  show ?case by simp
next
  case (2 s)
  have "length (dropWhile (\<lambda>c. c \<noteq> CHR 0x0A) s) \<le> length s"
    by (rule length_dropWhile_le)
  with 2 show ?case by (cases s) auto
qed

declare spec_complete_lines.simps [simp del]

text \<open>
  The deltas a request has delivered when it ends: those of the complete lines of the body
  read so far, none when there is no body to read.
\<close>

definition received_deltas ::
  "(string \<Rightarrow> json option) \<Rightarrow> (json \<Rightarrow> string) \<Rightarrow> FetchResult \<Rightarrow> string list" where
  "received_deltas parse toStr fetched =
     (case fetched of
        Rejected \<Rightarrow> []
      | Resolved response \<Rightarrow>
          if \<not> ok response then []
          else case body response of
                 None \<Rightarrow> []
               | Some (chunks, ending) \<Rightarrow>
                   List.map_filter (line_delta parse toStr) (spec_complete_lines (concat chunks)))"

text \<open>
  The failures of a request: a network error, a status that is not OK, a missing body, an
  error in mid-stream.
\<close>

definition request_failed :: "FetchResult \<Rightarrow> bool" where
  "request_failed fetched =
     (case fetched of
        Rejected \<Rightarrow> True
      | Resolved response \<Rightarrow>
          \<not> ok response \<or>
          (case body response of None \<Rightarrow> True | Some (chunks, ending) \<Rightarrow> ending = ReadFailed))"

subsection \<open>Sample data\<close>

text \<open>
  A line of the stream that carries the delta \<open>c\<close>, the value \<^verbatim>\<open>JSON.parse\<close> returns for
  it, and a parser that knows the lines used in the examples.
\<close>

definition quoted :: "string \<Rightarrow> string" where
  "quoted s = CHR 0x22 # s @ [CHR 0x22]"

definition delta_line :: "string \<Rightarrow> string" where
  "delta_line c =
     ''{'' @ quoted ''choices'' @ '':[{'' @ quoted ''delta'' @ '':{'' @ quoted ''content'' @
     '':'' @ quoted c @ ''}}]}''"

definition delta_json :: "string \<Rightarrow> json" where
  "delta_json c =
     JObject [(''choices'', JArray [JObject [(''delta'', JObject [(''content'', JString c)])]])]"

definition sample_parse :: "string \<Rightarrow> json option" where
  "sample_parse line =
     (if line = delta_line ''Hi'' then Some (delta_json ''Hi'')
      else if line = delta_line '' there'' then Some (delta_json '' there'')
      else if line = delta_line '' '' then Some (delta_json '' '')
      else None)"

definition sample_state :: ChatState where
  "sample_state =
     \<lparr>messages = [], loading = False, isClient = True, showFeedbackModal = False,
      feedback = None, threadId = None, isChatOpen = True, userInput = ''Hello'',
      isCompactMode = True, hasStartedChat = False, localStorage = Map.empty\<rparr>"

definition sample_clock :: Clock where
  "sample_clock = \<lparr>userAt = 1000, assistantAt = 1200, fallbackAt = 1500\<rparr>"

text \<open>Two lines of the stream, cut into three reads in the middle of each line.\<close>

definition sample_chunks :: "string list" where
  "sample_chunks =
     [''{'' @ quoted ''choices'' @ '':[{'',
      quoted ''delta'' @ '':{'' @ quoted ''content'' @ '':'' @ quoted ''Hi'' @ ''}}]}'' @
        [CHR 0x0A] @ ''{'' @ quoted ''choices'',
      '':[{'' @ quoted ''delta'' @ '':{'' @ quoted ''content'' @ '':'' @ quoted '' there'' @
        ''}}]}'' @ [CHR 0x0A]]"

text \<open>
  A conversation in which the second request failed, the text under which a tab stores what
  it keeps of it, and a parser that knows this text.
\<close>

definition sample_messages :: "ChatMessage list" where
  "sample_messages =
     [\<lparr>role = User, content = ''Who is Steve?'', timestamp = Some 10\<rparr>,
      \<lparr>role = Assistant, content = ''A product manager.'', timestamp = Some 11\<rparr>,
      \<lparr>role = User, content = ''More?'', timestamp = Some 20\<rparr>,
      \<lparr>role = Assistant, content = WITTY_MESSAGES ! 6, timestamp = Some 21\<rparr>]"

definition sample_stringify :: "ChatMessage list \<Rightarrow> string" where
  "sample_stringify msgs = ''['' @ concat (map (\<lambda>m. quoted (content m)) msgs) @ '']''"

definition sample_parse_messages :: "string \<Rightarrow> ParsedMessages" where
  "sample_parse_messages s =
     (if s = sample_stringify (take 2 sample_messages) then MessageArray (take 2 sample_messages)
      else if s = ''[]'' then MessageArray []
      else SyntaxError)"

section \<open>Flight map: data\<close>

text \<open>
  The flight map is the second component of \<^verbatim>\<open>Timeline.vue\<close> (lines 91-973); line numbers
  below are those of that file. Its numbers may be undefined or not-a-number where a field is
  read from an object that lacks it, so a number that is read from the airport table, and
  what is computed from it, has type \<^typ>\<open>real option\<close>: \<^const>\<open>None\<close> stands for
  \<^verbatim>\<open>undefined\<close> and \<^verbatim>\<open>NaN\<close>, which arithmetic, comparison, \<^verbatim>\<open>Math.max\<close> and
  \<^verbatim>\<open>Math.min\<close> treat alike.
\<close>

type_synonym number = "real option"

type_synonym coord = "number \<times> number"

record FlightData =
  date :: string
  time :: string
  origin :: string
  destination :: string
  flightNumber :: string
  departureDateTime :: string
  arrivalDateTime :: string
  airline :: string
  aircraft :: "string option"
  class' :: "string option"
  seat :: "string option"

text \<open>
  An entry of the airport table (\<^verbatim>\<open>Omit<Airport, "flightCount" | "displayCode">\<close>). The
  fields are options because the code also reads them from values that are not entries of
  the table (see \<open>AIRPORT_COORDINATES_get\<close> below).
\<close>

record AirportData =
  code :: "string option"
  lat :: number
  lng :: number
  name :: "string option"
  city :: "string option"
  country :: "string option"

record Airport = AirportData +
  displayCode :: "string option"
  flightCount :: nat

record Route =
  key' :: string
  from' :: string
  to' :: string
  count :: nat
  flights :: "FlightData list"
  coordinates :: "coord list"
  opacity :: real

record ZoomLevels =
  minZoom :: nat
  maxZoom :: nat
  initialZoom :: nat

definition airport ::
  "string \<Rightarrow> real \<Rightarrow> real \<Rightarrow> string \<Rightarrow> string \<Rightarrow> string \<Rightarrow> AirportData" where
  "airport c latitude longitude n ci co =
     \<lparr>code = Some c, lat = Some latitude, lng = Some longitude, name = Some n,
      city = Some ci, country = Some co\<rparr>"

text \<open>The own properties of \<^verbatim>\<open>AIRPORT_COORDINATES\<close> (lines 179-404), in source order.\<close>

definition AIRPORT_COORDINATES :: "(string \<times> AirportData) list" where
  "AIRPORT_COORDINATES =
   [
    (''SIN'', airport ''SIN'' 1.3644 103.9915 ''Singapore Changi Airport'' ''Singapore'' ''Singapore''),
    (''CGK'', airport ''CGK'' (-6.1256) 106.6559 ''Soekarno-Hatta International Airport'' ''Jakarta'' ''Indonesia''),
    (''BOS'', airport ''BOS'' 42.3656 (-71.0096) ''Logan International Airport'' ''Boston'' ''USA''),
    (''SFO'', airport ''SFO'' 37.6213 (-122.379) ''San Francisco International Airport'' ''San Francisco'' ''USA''),
    (''DXB'', airport ''DXB'' 25.2532 55.3657 ''Dubai International Airport'' ''Dubai'' ''UAE''),
    (''HKG'', airport ''HKG'' 22.308 113.9185 ''Hong Kong International Airport'' ''Hong Kong'' ''Hong Kong''),
    (''IST'', airport ''IST'' 41.2619 28.7411 ''Istanbul Airport'' ''Istanbul'' ''Turkey''),
    (''NCE'', airport ''NCE'' 43.6584 7.2159 (''Nice C'' @ [CHR 0xC3, CHR 0xB4] @ ''te d'Azur Airport'') ''Nice'' ''France''),
    (''LAX'', airport ''LAX'' 33.9425 (-118.4081) ''Los Angeles International Airport'' ''Los Angeles'' ''USA''),
    (''BLR'', airport ''BLR'' 12.9491 77.6678 ''Kempegowda International Airport'' ''Bangalore'' ''India''),
    (''MAA'', airport ''MAA'' 12.9941 80.1709 ''Chennai International Airport'' ''Chennai'' ''India''),
    (''KNO'', airport ''KNO'' 3.6422 98.8853 ''Kualanamu International Airport'' ''Medan'' ''Indonesia''),
    (''BKK'', airport ''BKK'' 13.69 100.7501 ''Suvarnabhumi Airport'' ''Bangkok'' ''Thailand''),
    (''PEN'', airport ''PEN'' 5.2971 100.2777 ''Penang International Airport'' ''Penang'' ''Malaysia''),
    (''ICN'', airport ''ICN'' 37.4602 126.4407 ''Incheon International Airport'' ''Seoul'' ''South Korea''),
    (''TPA'', airport ''TPA'' 27.9755 (-82.5332) ''Tampa International Airport'' ''Tampa'' ''USA''),
    (''ATL'', airport ''ATL'' 33.6407 (-84.4277) ''Hartsfield-Jackson Atlanta International Airport'' ''Atlanta'' ''USA''),
    (''GRU'', airport ''GRU'' (-23.4356) (-46.4731) (''S'' @ [CHR 0xC3, CHR 0xA3] @ ''o Paulo/Guarulhos International Airport'') (''S'' @ [CHR 0xC3, CHR 0xA3] @ ''o Paulo'') ''Brazil''),
    (''FCO'', airport ''FCO'' 41.8003 12.2389 ''Leonardo da Vinci International Airport'' ''Rome'' ''Italy''),
    (''FRA'', airport ''FRA'' 50.0379 8.5622 ''Frankfurt Airport'' ''Frankfurt'' ''Germany''),
    (''MUC'', airport ''MUC'' 48.3537 11.775 ''Munich Airport'' ''Munich'' ''Germany''),
    (''CDG'', airport ''CDG'' 49.0097 2.5479 ''Charles de Gaulle Airport'' ''Paris'' ''France''),
    (''TXL'', airport ''TXL'' 52.5597 13.2877 ''Berlin Tegel Airport'' ''Berlin'' ''Germany''),
    (''MXP'', airport ''MXP'' 45.6306 8.7281 ''Milan Malpensa Airport'' ''Milan'' ''Italy''),
    (''AMS'', airport ''AMS'' 52.3105 4.7683 ''Amsterdam Airport Schiphol'' ''Amsterdam'' ''Netherlands''),
    (''HNL'', airport ''HNL'' 21.3099 (-157.8581) ''Daniel K. Inouye International Airport'' ''Honolulu'' ''USA''),
    (''NRT'', airport ''NRT'' 35.7647 140.3864 ''Narita International Airport'' ''Tokyo'' ''Japan''),
    (''TOY'', airport ''TOY'' 36.6483 137.1875 ''Toyama Airport'' ''Toyama'' ''Japan'')]"

text \<open>
  \<^verbatim>\<open>AIRPORT_COORDINATES[code]\<close>. The table is an object literal, so a property that is not
  its own is looked up in \<^verbatim>\<open>Object.prototype\<close>: for the twelve names below the result is
  a function (or, for \<^verbatim>\<open>__proto__\<close>, the prototype object), which is truthy, has none of
  the six fields and no enumerable own property. For every other name the result is
  \<^verbatim>\<open>undefined\<close>, here \<^const>\<open>None\<close>.
\<close>

definition Object_prototype_names :: "string list" where
  "Object_prototype_names =
     [''constructor'', ''__defineGetter__'', ''__defineSetter__'', ''hasOwnProperty'',
      ''__lookupGetter__'', ''__lookupSetter__'', ''isPrototypeOf'', ''propertyIsEnumerable'',
      ''toString'', ''valueOf'', ''__proto__'', ''toLocaleString'']"

definition inherited_value :: AirportData where
  "inherited_value =
     \<lparr>code = None, lat = None, lng = None, name = None, city = None, country = None\<rparr>"

definition AIRPORT_COORDINATES_get :: "string \<Rightarrow> AirportData option" where
  "AIRPORT_COORDINATES_get c =
     (case map_of AIRPORT_COORDINATES c of
        Some a \<Rightarrow> Some a
      | None \<Rightarrow> if c \<in> set Object_prototype_names then Some inherited_value else None)"

section \<open>Flight map: the curve between two airports\<close>

text \<open>
  \<^verbatim>\<open>createCurvedPath\<close> (lines 470-551) on numbers that are defined, in the parts the claims
  name. First the destination longitude after the antimeridian adjustment (lines 474-492).
\<close>

definition adjustedLng2 :: "real \<Rightarrow> real \<Rightarrow> real" where
  "adjustedLng2 lng1 lng2 =
     (let eastwardDistance = \<bar>lng2 - lng1\<bar>;
          westwardDistance = 360 - eastwardDistance;
          shouldGoWestward = (westwardDistance < eastwardDistance)
      in if shouldGoWestward
         then (if lng2 > lng1 then lng2 - 360 else lng2 + 360)
         else lng2)"

text \<open>The distance of line 497, with the adjusted longitude.\<close>

definition curveDistance :: "real \<times> real \<Rightarrow> real \<times> real \<Rightarrow> real" where
  "curveDistance from to =
     (case (from, to) of
        ((lat1, lng1), (lat2, lng2)) \<Rightarrow>
          sqrt ((lat2 - lat1)\<^sup>2 + (adjustedLng2 lng1 lng2 - lng1)\<^sup>2))"

text \<open>The control point \<^verbatim>\<open>(controlLat, controlLng)\<close> of lines 504-531.\<close>

definition controlPoint :: "real \<times> real \<Rightarrow> real \<times> real \<Rightarrow> real \<times> real" where
  "controlPoint from to =
     (case (from, to) of
        ((lat1, lng1), (lat2, lng2)) \<Rightarrow>
          let adjusted = adjustedLng2 lng1 lng2;
              distance = curveDistance from to;
              midLat = (lat1 + lat2) / 2;
              midLng = (lng1 + adjusted) / 2;
              curveFactor = min (distance * 0.15) 20;
              curveOffset = (if \<bar>adjusted - lng1\<bar> > \<bar>lat2 - lat1\<bar>
                             then (if midLat > 0 then curveFactor else - curveFactor)
                             else curveFactor * 0.3);
              controlLat = midLat + (if \<bar>adjusted - lng1\<bar> > \<bar>lat2 - lat1\<bar> then curveOffset else 0);
              controlLng = midLng + (if \<bar>adjusted - lng1\<bar> \<le> \<bar>lat2 - lat1\<bar> then curveOffset else 0)
          in (controlLat, controlLng))"

text \<open>\<^verbatim>\<open>Math.max(3, Math.min(Math.floor(distance / 10), 8))\<close> (line 535).\<close>

definition segments :: "real \<Rightarrow> int" where
  "segments distance = max 3 (min \<lfloor>distance / 10\<rfloor> 8)"

text \<open>The body of the loop of lines 537-548 for one \<open>i\<close>.\<close>

definition bezierPoint ::
  "real \<times> real \<Rightarrow> real \<times> real \<Rightarrow> real \<times> real \<Rightarrow> int \<Rightarrow> int \<Rightarrow> real \<times> real" where
  "bezierPoint from control adjustedTo segs i =
     (case (from, control, adjustedTo) of
        ((lat1, lng1), (controlLat, controlLng), (lat2, adjusted)) \<Rightarrow>
          let t = real_of_int i / real_of_int segs;
              t2 = t * t;
              mt = 1 - t;
              mt2 = mt * mt
          in (mt2 * lat1 + 2 * mt * t * controlLat + t2 * lat2,
              mt2 * lng1 + 2 * mt * t * controlLng + t2 * adjusted))"

definition createCurvedPath :: "real \<times> real \<Rightarrow> real \<times> real \<Rightarrow> (real \<times> real) list" where
  "createCurvedPath from to =
     (let adjustedTo = (fst to, adjustedLng2 (snd from) (snd to));
          distance = curveDistance from to
      in if distance < 5 then [from, adjustedTo]
         else
           let segs = segments distance;
               points = map (bezierPoint from (controlPoint from to) adjustedTo segs) [0..segs]
           in if length points > 2 then points else [from, adjustedTo])"

text \<open>
  The same function on the numbers the caller passes. When a coordinate is undefined, the
  distance is \<^verbatim>\<open>NaN\<close>: \<^verbatim>\<open>distance < 5\<close> is false, \<^verbatim>\<open>segments\<close> is \<^verbatim>\<open>NaN\<close>, the loop
  condition \<^verbatim>\<open>i <= segments\<close> fails at once, and the function returns
  \<^verbatim>\<open>[from, adjustedTo]\<close>. The longitude is adjusted only when both longitudes are defined
  (the comparison of line 479 is false on \<^verbatim>\<open>NaN\<close>).
\<close>

definition createCurvedPath_js :: "coord \<Rightarrow> coord \<Rightarrow> coord list" where
  "createCurvedPath_js from to =
     (case (from, to) of
        ((Some lat1, Some lng1), (Some lat2, Some lng2)) \<Rightarrow>
          map (\<lambda>(y, x). (Some y, Some x)) (createCurvedPath (lat1, lng1) (lat2, lng2))
      | ((_, Some lng1), (lat2, Some lng2)) \<Rightarrow> [from, (lat2, Some (adjustedLng2 lng1 lng2))]
      | _ \<Rightarrow> [from, to])"


section \<open>Flight map: numbers that may be undefined\<close>

text \<open>An arithmetic operation: \<^verbatim>\<open>NaN\<close> when an operand is undefined or \<^verbatim>\<open>NaN\<close>.\<close>

definition num2 :: "(real \<Rightarrow> real \<Rightarrow> real) \<Rightarrow> number \<Rightarrow> number \<Rightarrow> number" where
  "num2 f a b = (case (a, b) of (Some x, Some y) \<Rightarrow> Some (f x y) | _ \<Rightarrow> None)"

text \<open>A comparison: false when an operand is undefined or \<^verbatim>\<open>NaN\<close>.\<close>

definition num_less :: "number \<Rightarrow> number \<Rightarrow> bool" where
  "num_less a b = (case (a, b) of (Some x, Some y) \<Rightarrow> x < y | _ \<Rightarrow> False)"

definition num_le :: "number \<Rightarrow> number \<Rightarrow> bool" where
  "num_le a b = (case (a, b) of (Some x, Some y) \<Rightarrow> x \<le> y | _ \<Rightarrow> False)"

text \<open>
  \<^verbatim>\<open>Math.max(...xs)\<close> and \<^verbatim>\<open>Math.min(...xs)\<close>: \<^verbatim>\<open>NaN\<close> when an argument is. The code
  calls them on lists it has found non-empty, so there is no equation for the empty list
  (where JavaScript returns an infinity).
\<close>

fun Math_max :: "number list \<Rightarrow> number" where
  "Math_max (x # xs) = foldl (num2 max) x xs"

fun Math_min :: "number list \<Rightarrow> number" where
  "Math_min (x # xs) = foldl (num2 min) x xs"

section \<open>Flight map: routes\<close>

text \<open>
  \<^verbatim>\<open>routeMap\<close> is a \<^verbatim>\<open>Map<string, Route>\<close>: an association list in insertion order,
  read with \<^const>\<open>map_of\<close>. A route found in the map is mutated in place, which leaves its
  position: \<open>update_entry\<close> changes the value stored under a key.
\<close>

fun update_entry :: "'k \<Rightarrow> ('v \<Rightarrow> 'v) \<Rightarrow> ('k \<times> 'v) list \<Rightarrow> ('k \<times> 'v) list" where
  "update_entry k g [] = []"
| "update_entry k g ((k', v) # m) =
     (if k = k' then (k', g v) # m else (k', v) # update_entry k g m)"

text \<open>\<^verbatim>\<open>[x.lat, x.lng]\<close> for an entry of the table or another truthy value.\<close>

definition position :: "AirportData \<Rightarrow> coord" where
  "position a = (lat a, lng a)"

text \<open>
  The body of \<^verbatim>\<open>props.flights.forEach\<close> in \<^verbatim>\<open>routes\<close> (lines 557-592). The warning
  written to the console for a skipped flight is not part of the state.
\<close>

definition routes_step :: "(string \<times> Route) list \<Rightarrow> FlightData \<Rightarrow> (string \<times> Route) list" where
  "routes_step routeMap flight =
     (case (AIRPORT_COORDINATES_get (origin flight),
            AIRPORT_COORDINATES_get (destination flight)) of
        (Some fromAirport, Some toAirport) \<Rightarrow>
          (let routeKey = origin flight @ ''-'' @ destination flight;
               reverseKey = destination flight @ ''-'' @ origin flight;
               found = (\<lambda>existingRoute. existingRoute\<lparr>count := count existingRoute + 1,
                                          flights := flights existingRoute @ [flight]\<rparr>)
           in case map_of routeMap routeKey of
                Some existingRoute \<Rightarrow> update_entry routeKey found routeMap
              | None \<Rightarrow>
                  (case map_of routeMap reverseKey of
                     Some existingRoute \<Rightarrow> update_entry reverseKey found routeMap
                   | None \<Rightarrow>
                       routeMap @
                       [(routeKey,
                         \<lparr>key' = routeKey, from' = origin flight, to' = destination flight,
                          count = 1, flights = [flight],
                          coordinates = createCurvedPath_js (position fromAirport)
                                                            (position toAirport),
                          opacity = 0.4\<rparr>)]))
      | _ \<Rightarrow> routeMap)"

text \<open>
  \<^verbatim>\<open>routes\<close> (lines 554-604). \<^verbatim>\<open>Math.max(...counts, 1)\<close> is taken on \<^typ>\<open>nat\<close>, where the
  counts live.
\<close>

definition routes :: "FlightData list \<Rightarrow> Route list" where
  "routes flightList =
     (let routeArray = map snd (foldl routes_step [] flightList);
          maxCount = foldr max (map count routeArray) 1
      in map (\<lambda>route. route\<lparr>opacity :=
                  min (0.3 + (real (count route) / real maxCount) * 0.7) 1.0\<rparr>) routeArray)"

section \<open>Flight map: zoom levels and bounds\<close>

text \<open>\<^verbatim>\<open>zoomLevels\<close> (lines 725-781), as a function of \<^verbatim>\<open>routes.value\<close>.\<close>

definition zoomLevels :: "Route list \<Rightarrow> ZoomLevels" where
  "zoomLevels routeList =
     (if length routeList = 0 then \<lparr>minZoom = 2, maxZoom = 18, initialZoom = 2\<rparr>
      else
        let allRouteCoordinates = concat (map coordinates routeList)
        in if length allRouteCoordinates = 0
           then \<lparr>minZoom = 2, maxZoom = 18, initialZoom = 2\<rparr>
           else
             let lats = map fst allRouteCoordinates;
                 lngs = map snd allRouteCoordinates;
                 latSpread = num2 (-) (Math_max lats) (Math_min lats);
                 lngSpread = num2 (-) (Math_max lngs) (Math_min lngs);
                 maxSpread = Math_max [latSpread, lngSpread]
             in if num_less (Some 120) maxSpread
                then \<lparr>minZoom = 2, maxZoom = 18, initialZoom = 2\<rparr>
                else if num_less (Some 60) maxSpread
                then \<lparr>minZoom = 2, maxZoom = 18, initialZoom = 3\<rparr>
                else if num_less (Some 30) maxSpread
                then \<lparr>minZoom = 3, maxZoom = 18, initialZoom = 4\<rparr>
                else if num_less (Some 10) maxSpread
                then \<lparr>minZoom = 4, maxZoom = 18, initialZoom = 5\<rparr>
                else \<lparr>minZoom = 5, maxZoom = 18, initialZoom = 6\<rparr>)"

text \<open>
  The start and end point that \<^verbatim>\<open>mapBounds\<close> takes of one route (lines 793-796).
\<close>

definition routeEndpoints :: "Route \<Rightarrow> coord list" where
  "routeEndpoints route =
     (if length (coordinates route) \<ge> 2
      then [coordinates route ! 0, coordinates route ! (length (coordinates route) - 1)]
      else [])"

text \<open>\<^verbatim>\<open>mapBounds\<close> (lines 784-839); \<^verbatim>\<open>null\<close> is \<^const>\<open>None\<close>.\<close>

definition mapBounds :: "Route list \<Rightarrow> (coord \<times> coord) option" where
  "mapBounds routeList =
     (if length routeList = 0 then None
      else
        let endpoints = concat (map routeEndpoints routeList)
        in if length endpoints = 0 then None
           else
             let lats = map fst endpoints;
                 lngs = map snd endpoints;
                 normalLngs = filter (\<lambda>x. num_le (Some (-180)) x \<and> num_le x (Some 180)) lngs;
                 wrappedLngs = filter (\<lambda>x. num_less x (Some (-180)) \<or> num_less (Some 180) x) lngs;
                 (minLng, maxLng) =
                   (if length wrappedLngs > 0 \<and> length normalLngs > 0
                    then
                      let minNormal = Math_min normalLngs;
                          maxWrapped = Math_max wrappedLngs
                      in (Math_max [num2 (-) minNormal (Some 10), Some (-180)],
                          Math_min [num2 (+) maxWrapped (Some 10), Some 360])
                    else (Math_min lngs, Math_max lngs));
                 latSpread = num2 (-) (Math_max lats) (Math_min lats);
                 latPadding = Math_max [Math_min [num2 (*) latSpread (Some 0.15), Some 8], Some 2];
                 lngPadding = Math_max [Math_min [num2 (*) (num2 (-) maxLng minLng) (Some 0.05),
                                                  Some 5], Some 2]
             in Some ((num2 (-) (Math_min lats) latPadding, num2 (-) minLng lngPadding),
                      (num2 (+) (Math_max lats) latPadding, num2 (+) maxLng lngPadding)))"

section \<open>Flight map: airports\<close>






section \<open>Flight map: the older revision of the route aggregation\<close>

text \<open>
  The third component of \<^verbatim>\<open>Timeline.vue\<close> (lines 1710-2287) is an older revision of the
  map. Its airport table (lines 1781-1990) is the table above without its last two entries,
  \<^verbatim>\<open>NRT\<close> and \<^verbatim>\<open>TOY\<close>; its routes carry a thickness, are straight, and get their opacity
  while the flights are read.
\<close>

definition AIRPORT_COORDINATES_v2 :: "(string \<times> AirportData) list" where
  "AIRPORT_COORDINATES_v2 = butlast (butlast AIRPORT_COORDINATES)"

definition AIRPORT_COORDINATES_v2_get :: "string \<Rightarrow> AirportData option" where
  "AIRPORT_COORDINATES_v2_get c =
     (case map_of AIRPORT_COORDINATES_v2 c of
        Some a \<Rightarrow> Some a
      | None \<Rightarrow> if c \<in> set Object_prototype_names then Some inherited_value else None)"

record Route_v2 = Route +
  thickness :: real

text \<open>The body of \<^verbatim>\<open>props.flights.forEach\<close> in lines 2023-2062.\<close>

definition routes_v2_step ::
  "(string \<times> Route_v2) list \<Rightarrow> FlightData \<Rightarrow> (string \<times> Route_v2) list" where
  "routes_v2_step routeMap flight =
     (case (AIRPORT_COORDINATES_v2_get (origin flight),
            AIRPORT_COORDINATES_v2_get (destination flight)) of
        (Some fromAirport, Some toAirport) \<Rightarrow>
          (let routeKey = origin flight @ ''-'' @ destination flight;
               reverseKey = destination flight @ ''-'' @ origin flight;
               found = (\<lambda>existingRoute.
                          existingRoute\<lparr>count := count existingRoute + 1,
                                        flights := flights existingRoute @ [flight],
                                        thickness :=
                                          min (max (real (count existingRoute + 1)) 1) 10,
                                        opacity :=
                                          min (0.3 + real (count existingRoute + 1) * 0.1) 0.9\<rparr>)
           in case map_of routeMap routeKey of
                Some existingRoute \<Rightarrow> update_entry routeKey found routeMap
              | None \<Rightarrow>
                  (case map_of routeMap reverseKey of
                     Some existingRoute \<Rightarrow> update_entry reverseKey found routeMap
                   | None \<Rightarrow>
                       routeMap @
                       [(routeKey,
                         \<lparr>key' = routeKey, from' = origin flight, to' = destination flight,
                          count = 1, flights = [flight],
                          coordinates = [position fromAirport, position toAirport],
                          opacity = 0.4, thickness = 1\<rparr>)]))
      | _ \<Rightarrow> routeMap)"

text \<open>\<^verbatim>\<open>routes\<close> of the older revision (lines 2020-2065).\<close>

definition routes_v2 :: "FlightData list \<Rightarrow> Route_v2 list" where
  "routes_v2 flightList = map snd (foldl routes_v2_step [] flightList)"

section \<open>Flight map: invariants of the aggregation\<close>

text \<open>
  The invariant of \<^verbatim>\<open>routeMap\<close> after the flights \<open>fs\<close> have been read: the flights
  with both codes valid are grouped by the unordered pair of their codes, one route per
  pair, keyed by the codes of its first flight; the route holds the flights of its pair, in
  order, and their number.
\<close>

definition valid_flight :: "(string \<Rightarrow> bool) \<Rightarrow> FlightData \<Rightarrow> bool" where
  "valid_flight valid f = (valid (origin f) \<and> valid (destination f))"

definition aggregates ::
  "(string \<Rightarrow> bool) \<Rightarrow> (string \<times> 'a Route_scheme) list \<Rightarrow> FlightData list \<Rightarrow> bool" where
  "aggregates valid m fs \<longleftrightarrow>
     (\<forall>e \<in> set m.
        fst e = from' (snd e) @ ''-'' @ to' (snd e) \<and> valid (from' (snd e)) \<and> valid (to' (snd e)) \<and>
        flights (snd e) =
          filter (\<lambda>f. valid_flight valid f \<and>
                       {origin f, destination f} = {from' (snd e), to' (snd e)}) fs \<and>
        count (snd e) =
          length (filter (\<lambda>f. valid_flight valid f \<and>
                               {origin f, destination f} = {from' (snd e), to' (snd e)}) fs) \<and>
        filter (\<lambda>f. valid_flight valid f \<and>
                     {origin f, destination f} = {from' (snd e), to' (snd e)}) fs \<noteq> [])
     \<and> distinct (map (\<lambda>e. {from' (snd e), to' (snd e)}) m)
     \<and> (\<forall>f \<in> set fs. valid_flight valid f \<longrightarrow>
           (\<exists>e \<in> set m. {origin f, destination f} = {from' (snd e), to' (snd e)}))"


section \<open>Flight map: sample data\<close>

definition flight :: "string \<Rightarrow> string \<Rightarrow> FlightData" where
  "flight a b =
     \<lparr>date = ''2024-03-01'', time = ''08:15:00'', origin = a, destination = b,
      flightNumber = ''SQ950'', departureDateTime = ''2024-03-01T08:15:00'',
      arrivalDateTime = ''2024-03-01T09:05:00'', airline = ''Singapore Airlines'',
      aircraft = None, class' = None, seat = None\<rparr>"

definition sample_flights :: "FlightData list" where
  "sample_flights =
     [flight ''SIN'' ''CGK'', flight ''SIN'' ''HKG'', flight ''CGK'' ''SIN'',
      flight ''SIN'' ''XXX'']"

definition sample_route :: "coord list \<Rightarrow> Route" where
  "sample_route cs =
     \<lparr>key' = ''AMS-TXL'', from' = ''AMS'', to' = ''TXL'', count = 1,
      flights = [flight ''AMS'' ''TXL''], coordinates = cs, opacity = 1\<rparr>"

section \<open>Chat widget: properties\<close>

subsection \<open>Saving and receiving the conversation\<close>

lemma zip_upt_nth: "(m, i) \<in> set (zip ms [0..<length ms]) \<Longrightarrow> i < length ms \<and> m = ms ! i"
  by (auto simp: set_zip)

lemma messagesToSave_nths:
  "messagesToSave ms = nths ms {i. \<not> isWittyMessage ms (ms ! i) i}"
  unfolding messagesToSave_def nths_def
  by (rule arg_cong[where f="map fst"], rule filter_cong) (auto dest: zip_upt_nth)

lemma messagesToSave_no_fallback:
  "m \<in> set (messagesToSave ms) \<Longrightarrow> \<not> (role m = Assistant \<and> content m \<in> set WITTY_MESSAGES)"
  unfolding messagesToSave_def isWittyMessage_def by (auto split: if_splits)

lemma isWittyMessage_index:
  "isWittyMessage ms (ms ! i) i \<longleftrightarrow>
     (role (ms ! i) = Assistant \<and> content (ms ! i) \<in> set WITTY_MESSAGES) \<or>
     (role (ms ! i) = User \<and> Suc i < length ms \<and>
      role (ms ! Suc i) = Assistant \<and> content (ms ! Suc i) \<in> set WITTY_MESSAGES)"
  unfolding isWittyMessage_def by (auto simp: Let_def)

lemma messagesToSave_indices:
  "messagesToSave ms =
     nths ms {i. \<not> (role (ms ! i) = Assistant \<and> content (ms ! i) \<in> set WITTY_MESSAGES) \<and>
                 \<not> (role (ms ! i) = User \<and> Suc i < length ms \<and>
                    role (ms ! Suc i) = Assistant \<and> content (ms ! Suc i) \<in> set WITTY_MESSAGES)}"
  unfolding messagesToSave_nths isWittyMessage_index
  by (rule arg_cong[where f="nths ms"]) auto

lemma handleStorageChange_chatMessages:
  assumes "isClient st" and "v \<noteq> []" and "parse v = MessageArray msgs"
  shows "handleStorageChange parse st \<lparr>key = Some ''chatMessages'', newValue = Some v\<rparr> =
         (let hasNew = (\<exists>msg \<in> set msgs.
                   role msg = User \<and>
                   \<not> (\<exists>known \<in> set (messages st).
                         role known = role msg \<and> content known = content msg \<and>
                         timestamp known = timestamp msg));
              st1 = (if hasNew then st\<lparr>isChatOpen := True,
                                localStorage := (localStorage st)(''miniChatOpen'' \<mapsto> ''true'')\<rparr>
                     else st)
          in st1\<lparr>messages := msgs, isCompactMode := (msgs = []), hasStartedChat := (msgs \<noteq> [])\<rparr>)"
  using assms unfolding handleStorageChange_def Let_def
  by (simp del: bex_simps)

lemma handleStorageChange_messages:
  assumes "isClient st" and "v \<noteq> []" and "parse v = MessageArray msgs"
  shows "messages (handleStorageChange parse st
                     \<lparr>key = Some ''chatMessages'', newValue = Some v\<rparr>) = msgs"
  unfolding handleStorageChange_chatMessages[of st v parse msgs, OF assms] Let_def
  by (simp del: bex_simps)

lemma sample_saved: "messagesToSave sample_messages = take 2 sample_messages"
  by code_simp

lemma sample_kept:
  "take 2 sample_messages =
     [\<lparr>role = User, content = ''Who is Steve?'', timestamp = Some 10\<rparr>,
      \<lparr>role = Assistant, content = ''A product manager.'', timestamp = Some 11\<rparr>]"
  by code_simp

lemma sample_text_parses:
  "sample_stringify (take 2 sample_messages) \<noteq> []"
  "sample_parse_messages (sample_stringify (take 2 sample_messages)) =
     MessageArray (take 2 sample_messages)"
  by (simp_all add: sample_stringify_def sample_parse_messages_def)

text \<open>
  Claim C10. Whenever the component saves its messages under \<^verbatim>\<open>chatMessages\<close>, the text
  written is that of the filtered list: it holds no assistant message whose content is one
  of the fallback messages, and it is the list without exactly these messages and the user
  messages immediately followed by one. A peer tab that receives the text takes over the
  filtered list, so no fallback message reaches it.
\<close>

theorem saved_messages_exclude_fallbacks:
  assumes "isClient st"
  shows "(let saved = messagesToSave (messages st);
              st' = saveMessagesToStorage stringify st
          in localStorage st' ''chatMessages'' = Some (stringify saved)
           \<and> (\<forall>m \<in> set saved. \<not> (role m = Assistant \<and> content m \<in> set WITTY_MESSAGES))
           \<and> saved = nths (messages st)
                {i. \<not> (role (messages st ! i) = Assistant \<and>
                        content (messages st ! i) \<in> set WITTY_MESSAGES) \<and>
                    \<not> (role (messages st ! i) = User \<and> Suc i < length (messages st) \<and>
                        role (messages st ! Suc i) = Assistant \<and>
                        content (messages st ! Suc i) \<in> set WITTY_MESSAGES)}
           \<and> (isClient peer \<and> stringify saved \<noteq> [] \<and>
               parse (stringify saved) = MessageArray saved \<longrightarrow>
               messages (handleStorageChange parse peer
                           \<lparr>key = Some ''chatMessages'',
                            newValue = localStorage st' ''chatMessages''\<rparr>) = saved))"
proof -
  have 1: "localStorage (saveMessagesToStorage stringify st) ''chatMessages'' =
           Some (stringify (messagesToSave (messages st)))"
    using assms by (simp add: saveMessagesToStorage_def)
  have 2: "\<forall>m \<in> set (messagesToSave (messages st)).
             \<not> (role m = Assistant \<and> content m \<in> set WITTY_MESSAGES)"
    using messagesToSave_no_fallback by blast
  have 3: "isClient peer \<and> stringify (messagesToSave (messages st)) \<noteq> [] \<and>
           parse (stringify (messagesToSave (messages st))) =
             MessageArray (messagesToSave (messages st)) \<longrightarrow>
           messages (handleStorageChange parse peer
                       \<lparr>key = Some ''chatMessages'',
                        newValue = localStorage (saveMessagesToStorage stringify st)
                                     ''chatMessages''\<rparr>) = messagesToSave (messages st)"
    unfolding 1 using handleStorageChange_messages by blast
  show ?thesis
    unfolding Let_def
    by (intro conjI, rule 1, rule 2, rule messagesToSave_indices, rule 3)
qed

theorem saved_messages_exclude_fallbacks_witness:
  "isClient (sample_state\<lparr>messages := sample_messages\<rparr>)
   \<and> localStorage (saveMessagesToStorage sample_stringify (sample_state\<lparr>messages := sample_messages\<rparr>))
        ''chatMessages'' = Some (sample_stringify (take 2 sample_messages))
   \<and> messages (handleStorageChange sample_parse_messages sample_state
        \<lparr>key = Some ''chatMessages'',
         newValue = localStorage (saveMessagesToStorage sample_stringify
                                    (sample_state\<lparr>messages := sample_messages\<rparr>)) ''chatMessages''\<rparr>)
      = [\<lparr>role = User, content = ''Who is Steve?'', timestamp = Some 10\<rparr>,
         \<lparr>role = Assistant, content = ''A product manager.'', timestamp = Some 11\<rparr>]"
proof -
  have c: "isClient (sample_state\<lparr>messages := sample_messages\<rparr>)" "isClient sample_state"
    by (simp_all add: sample_state_def)
  have m: "messagesToSave (messages (sample_state\<lparr>messages := sample_messages\<rparr>)) =
           take 2 sample_messages"
    by (simp add: sample_saved)
  note w = saved_messages_exclude_fallbacks[OF c(1), of sample_stringify sample_state
             sample_parse_messages, unfolded Let_def m]
  have 1: "localStorage (saveMessagesToStorage sample_stringify
             (sample_state\<lparr>messages := sample_messages\<rparr>)) ''chatMessages'' =
           Some (sample_stringify (take 2 sample_messages))"
    using w by (rule conjunct1)
  have 2: "messages (handleStorageChange sample_parse_messages sample_state
        \<lparr>key = Some ''chatMessages'',
         newValue = localStorage (saveMessagesToStorage sample_stringify
                                    (sample_state\<lparr>messages := sample_messages\<rparr>)) ''chatMessages''\<rparr>)
      = take 2 sample_messages"
    using w c(2) sample_text_parses by blast
  show ?thesis
    by (intro conjI, rule c(1), rule 1, rule trans[OF 2 sample_kept])
qed

lemma count_list_filter_le: "count_list (filter P xs) m \<le> count_list xs m"
  by (induction xs) auto

lemma count_list_zip_filter_le:
  "count_list (map fst (filter P (zip xs ys))) m \<le> count_list xs m"
proof (induction xs arbitrary: ys)
  case Nil
  show ?case by simp
next
  case (Cons x xs)
  show ?case
  proof (cases ys)
    case Nil
    then show ?thesis by simp
  next
    case (Cons y ys')
    with Cons.IH[of ys'] show ?thesis by (auto intro: le_SucI)
  qed
qed

lemma count_list_messagesToSave_le:
  "count_list (messagesToSave ms) m \<le> count_list ms m"
  unfolding messagesToSave_def by (rule count_list_zip_filter_le)

lemma messagesToSave_all:
  assumes "\<forall>m \<in> set ms. \<not> (role m = Assistant \<and> content m \<in> set WITTY_MESSAGES)"
  shows "messagesToSave ms = ms"
proof -
  have "\<not> isWittyMessage ms (ms ! i) i" if "i < length ms" for i
  proof -
    have a: "\<not> (role (ms ! i) = Assistant \<and> content (ms ! i) \<in> set WITTY_MESSAGES)"
      using assms that by (meson nth_mem)
    have b: "\<not> (role (ms ! Suc i) = Assistant \<and> content (ms ! Suc i) \<in> set WITTY_MESSAGES)"
      if "Suc i < length ms"
      using assms that by (meson nth_mem)
    show ?thesis unfolding isWittyMessage_index using a b by blast
  qed
  then show ?thesis unfolding messagesToSave_nths by (intro nths_all) simp
qed

lemma handleStorageChange_rendered:
  assumes "isClient st" and "v \<noteq> []" and "parse v = MessageArray msgs"
  shows "renderedMessages (handleStorageChange parse st
                             \<lparr>key = Some ''chatMessages'', newValue = Some v\<rparr>) =
         (if isChatOpen (handleStorageChange parse st
                             \<lparr>key = Some ''chatMessages'', newValue = Some v\<rparr>)
          then filter (\<lambda>msg. \<not> trim_is_empty (content msg)) msgs else [])"
  unfolding handleStorageChange_chatMessages[of st v parse msgs, OF assms] Let_def renderedMessages_def
  using assms(1) by (cases "msgs = []") (simp_all del: bex_simps)

lemma handleStorageChange_isChatOpen:
  assumes "isClient st" and "v \<noteq> []" and "parse v = MessageArray msgs"
  shows "isChatOpen (handleStorageChange parse st
                             \<lparr>key = Some ''chatMessages'', newValue = Some v\<rparr>) \<longleftrightarrow>
         isChatOpen st \<or>
         (\<exists>msg \<in> set msgs.
            role msg = User \<and>
            \<not> (\<exists>known \<in> set (messages st).
                  role known = role msg \<and> content known = content msg \<and>
                  timestamp known = timestamp msg))"
  unfolding handleStorageChange_chatMessages[of st v parse msgs, OF assms] Let_def
  by (simp del: bex_simps)

lemma sample_contents:
  "\<not> trim_is_empty ''Who is Steve?''" "\<not> trim_is_empty ''A product manager.''"
  by (subst trim_is_empty.simps, simp add: ascii_space_def space2_def space3_def)+

lemma sample_peer:
  "handleStorageChange sample_parse_messages sample_state
     \<lparr>key = Some ''chatMessages'',
      newValue = localStorage (saveMessagesToStorage sample_stringify
                                 (sample_state\<lparr>messages := sample_messages\<rparr>)) ''chatMessages''\<rparr> =
   sample_state\<lparr>messages := take 2 sample_messages, isCompactMode := False,
                hasStartedChat := True, isChatOpen := True,
                localStorage := (localStorage sample_state)(''miniChatOpen'' \<mapsto> ''true'')\<rparr>"
proof -
  have c: "isClient sample_state" by (simp add: sample_state_def)
  have s: "localStorage (saveMessagesToStorage sample_stringify
                                 (sample_state\<lparr>messages := sample_messages\<rparr>)) ''chatMessages'' =
        Some (sample_stringify (take 2 sample_messages))"
    by (simp add: saveMessagesToStorage_def sample_saved sample_state_def)
  have n: "take 2 sample_messages \<noteq> []" by (simp add: sample_kept)
  show ?thesis
    unfolding s handleStorageChange_chatMessages[of sample_state "sample_stringify (take 2 sample_messages)" sample_parse_messages "take 2 sample_messages", OF c sample_text_parses]
    by (simp add: Let_def sample_kept sample_state_def)
qed

lemma sample_saved_kept: "messagesToSave (take 2 sample_messages) = take 2 sample_messages"
  by code_simp

text \<open>
  Claim C9 as stated fails for a message that the sending tab does not save. In the tab
  below the question \<^verbatim>\<open>More?\<close> was appended once and the request failed, so a fallback
  message follows it; the tab saves its list without the two, and the list of the tab that
  receives the storage event, and what it shows of it, hold the question not once but not
  at all.
\<close>

theorem failed_question_absent_from_peer:
  "count_list sample_messages \<lparr>role = User, content = ''More?'', timestamp = Some 20\<rparr> = 1
   \<and> messages (handleStorageChange sample_parse_messages sample_state
        \<lparr>key = Some ''chatMessages'',
         newValue = localStorage (saveMessagesToStorage sample_stringify
                                    (sample_state\<lparr>messages := sample_messages\<rparr>)) ''chatMessages''\<rparr>)
      = [\<lparr>role = User, content = ''Who is Steve?'', timestamp = Some 10\<rparr>,
         \<lparr>role = Assistant, content = ''A product manager.'', timestamp = Some 11\<rparr>]
   \<and> renderedMessages (handleStorageChange sample_parse_messages sample_state
        \<lparr>key = Some ''chatMessages'',
         newValue = localStorage (saveMessagesToStorage sample_stringify
                                    (sample_state\<lparr>messages := sample_messages\<rparr>)) ''chatMessages''\<rparr>)
      = [\<lparr>role = User, content = ''Who is Steve?'', timestamp = Some 10\<rparr>,
         \<lparr>role = Assistant, content = ''A product manager.'', timestamp = Some 11\<rparr>]
   \<and> count_list (renderedMessages (handleStorageChange sample_parse_messages sample_state
        \<lparr>key = Some ''chatMessages'',
         newValue = localStorage (saveMessagesToStorage sample_stringify
                                    (sample_state\<lparr>messages := sample_messages\<rparr>)) ''chatMessages''\<rparr>))
        \<lparr>role = User, content = ''More?'', timestamp = Some 20\<rparr> = 0"
proof -
  have 1: "count_list sample_messages \<lparr>role = User, content = ''More?'', timestamp = Some 20\<rparr> = 1"
    by (simp add: sample_messages_def)
  have 2: "messages (sample_state\<lparr>messages := take 2 sample_messages, isCompactMode := False,
                hasStartedChat := True, isChatOpen := True,
                localStorage := (localStorage sample_state)(''miniChatOpen'' \<mapsto> ''true'')\<rparr>)
      = [\<lparr>role = User, content = ''Who is Steve?'', timestamp = Some 10\<rparr>,
         \<lparr>role = Assistant, content = ''A product manager.'', timestamp = Some 11\<rparr>]"
    by (simp add: sample_kept)
  have 3: "renderedMessages (sample_state\<lparr>messages := take 2 sample_messages, isCompactMode := False,
                hasStartedChat := True, isChatOpen := True,
                localStorage := (localStorage sample_state)(''miniChatOpen'' \<mapsto> ''true'')\<rparr>)
      = [\<lparr>role = User, content = ''Who is Steve?'', timestamp = Some 10\<rparr>,
         \<lparr>role = Assistant, content = ''A product manager.'', timestamp = Some 11\<rparr>]"
    by (simp add: renderedMessages_def sample_kept sample_contents sample_state_def)
  have 4: "count_list (renderedMessages (sample_state\<lparr>messages := take 2 sample_messages, isCompactMode := False,
                hasStartedChat := True, isChatOpen := True,
                localStorage := (localStorage sample_state)(''miniChatOpen'' \<mapsto> ''true'')\<rparr>))
        \<lparr>role = User, content = ''More?'', timestamp = Some 20\<rparr> = 0"
    unfolding 3 by simp
  show ?thesis
    unfolding sample_peer by (intro conjI, rule 1, rule 2, rule 3, rule 4)
qed

text \<open>
  Claim C9, as amended. A storage event for \<^verbatim>\<open>chatMessages\<close> that carries the text a
  peer tab has saved makes the receiving tab's message list exactly the saved array, which
  is the peer's list without its fallback messages and the user messages directly before
  one. The chat window opens when the array holds a user message that no local message
  matches in role, content and timestamp. With the window open the tab shows the messages
  of the array whose content is not blank. So no message is shown more often than the peer's
  list holds it; and when the peer's list holds no fallback message, the receiving list is
  the peer's list, and a message with content that is not blank is shown, with the window
  open, exactly as often as the peer's list holds it.
\<close>

theorem peer_tab_renders_saved_messages:
  assumes "isClient sender" and "isClient peer"
    and "stringify (messagesToSave (messages sender)) \<noteq> []"
    and "parse (stringify (messagesToSave (messages sender))) =
           MessageArray (messagesToSave (messages sender))"
  shows "(let saved = messagesToSave (messages sender);
              sender' = saveMessagesToStorage stringify sender;
              peer' = handleStorageChange parse peer
                        \<lparr>key = Some ''chatMessages'',
                         newValue = localStorage sender' ''chatMessages''\<rparr>
          in messages peer' = saved
           \<and> (isChatOpen peer' \<longleftrightarrow>
                isChatOpen peer \<or>
                (\<exists>msg \<in> set saved.
                   role msg = User \<and>
                   \<not> (\<exists>known \<in> set (messages peer).
                         role known = role msg \<and> content known = content msg \<and>
                         timestamp known = timestamp msg)))
           \<and> renderedMessages peer' =
               (if isChatOpen peer'
                then filter (\<lambda>msg. \<not> trim_is_empty (content msg)) saved else [])
           \<and> (\<forall>m. count_list (renderedMessages peer') m \<le> count_list (messages sender) m)
           \<and> ((\<forall>m \<in> set (messages sender).
                  \<not> (role m = Assistant \<and> content m \<in> set WITTY_MESSAGES)) \<longrightarrow>
               messages peer' = messages sender \<and>
               (\<forall>m. isChatOpen peer' \<and> \<not> trim_is_empty (content m) \<longrightarrow>
                    count_list (renderedMessages peer') m = count_list (messages sender) m)))"
proof -
  define saved where "saved = messagesToSave (messages sender)"
  define peer' where "peer' = handleStorageChange parse peer
                        \<lparr>key = Some ''chatMessages'', newValue = Some (stringify saved)\<rparr>"
  have s: "localStorage (saveMessagesToStorage stringify sender) ''chatMessages'' =
           Some (stringify saved)"
    using assms(1) by (simp add: saveMessagesToStorage_def saved_def)
  note h = assms(2) assms(3)[folded saved_def] assms(4)[folded saved_def]
  have 1: "messages peer' = saved"
    unfolding peer'_def by (rule handleStorageChange_messages[of peer "stringify saved" parse saved, OF h])
  have 2: "isChatOpen peer' \<longleftrightarrow>
                isChatOpen peer \<or>
                (\<exists>msg \<in> set saved.
                   role msg = User \<and>
                   \<not> (\<exists>known \<in> set (messages peer).
                         role known = role msg \<and> content known = content msg \<and>
                         timestamp known = timestamp msg))"
    unfolding peer'_def by (rule handleStorageChange_isChatOpen[of peer "stringify saved" parse saved, OF h])
  have 3: "renderedMessages peer' =
               (if isChatOpen peer'
                then filter (\<lambda>msg. \<not> trim_is_empty (content msg)) saved else [])"
    unfolding peer'_def by (rule handleStorageChange_rendered[of peer "stringify saved" parse saved, OF h])
  have 4: "\<forall>m. count_list (renderedMessages peer') m \<le> count_list (messages sender) m"
  proof
    fix m
    have "count_list (renderedMessages peer') m \<le> count_list saved m"
      unfolding 3 by (simp add: count_list_filter_le)
    also have "\<dots> \<le> count_list (messages sender) m"
      unfolding saved_def by (rule count_list_messagesToSave_le)
    finally show "count_list (renderedMessages peer') m \<le> count_list (messages sender) m" .
  qed
  have 5: "(\<forall>m \<in> set (messages sender).
                  \<not> (role m = Assistant \<and> content m \<in> set WITTY_MESSAGES)) \<longrightarrow>
               messages peer' = messages sender \<and>
               (\<forall>m. isChatOpen peer' \<and> \<not> trim_is_empty (content m) \<longrightarrow>
                    count_list (renderedMessages peer') m = count_list (messages sender) m)"
  proof
    assume "\<forall>m \<in> set (messages sender).
                  \<not> (role m = Assistant \<and> content m \<in> set WITTY_MESSAGES)"
    then have e: "saved = messages sender" unfolding saved_def by (rule messagesToSave_all)
    have c: "count_list (filter P xs) m = count_list xs m" if "P m" for P xs and m :: ChatMessage
      using that by (induction xs) auto
    show "messages peer' = messages sender \<and>
               (\<forall>m. isChatOpen peer' \<and> \<not> trim_is_empty (content m) \<longrightarrow>
                    count_list (renderedMessages peer') m = count_list (messages sender) m)"
      unfolding 3 using 1 e c by simp
  qed
  show ?thesis
    unfolding Let_def s saved_def[symmetric] peer'_def[symmetric]
    by (intro conjI, rule 1, rule 2, rule 3, rule 4, rule 5)
qed

theorem peer_tab_renders_saved_messages_witness:
  "isClient (sample_state\<lparr>messages := sample_messages\<rparr>) \<and> isClient sample_state
   \<and> sample_stringify (messagesToSave sample_messages) \<noteq> []
   \<and> sample_parse_messages (sample_stringify (messagesToSave sample_messages)) =
       MessageArray (messagesToSave sample_messages)
   \<and> messages (handleStorageChange sample_parse_messages sample_state
        \<lparr>key = Some ''chatMessages'',
         newValue = localStorage (saveMessagesToStorage sample_stringify
                                    (sample_state\<lparr>messages := sample_messages\<rparr>)) ''chatMessages''\<rparr>)
      = [\<lparr>role = User, content = ''Who is Steve?'', timestamp = Some 10\<rparr>,
         \<lparr>role = Assistant, content = ''A product manager.'', timestamp = Some 11\<rparr>]
   \<and> count_list (renderedMessages (handleStorageChange sample_parse_messages sample_state
        \<lparr>key = Some ''chatMessages'',
         newValue = localStorage (saveMessagesToStorage sample_stringify
                                    (sample_state\<lparr>messages := sample_messages\<rparr>)) ''chatMessages''\<rparr>))
        \<lparr>role = User, content = ''Who is Steve?'', timestamp = Some 10\<rparr>
      \<le> count_list sample_messages \<lparr>role = User, content = ''Who is Steve?'', timestamp = Some 10\<rparr>
   \<and> count_list sample_messages \<lparr>role = User, content = ''Who is Steve?'', timestamp = Some 10\<rparr> = 1
   \<and> messages (handleStorageChange sample_parse_messages sample_state
        \<lparr>key = Some ''chatMessages'',
         newValue = localStorage (saveMessagesToStorage sample_stringify
                                    (sample_state\<lparr>messages := take 2 sample_messages\<rparr>))
                      ''chatMessages''\<rparr>)
      = take 2 sample_messages
   \<and> count_list (renderedMessages (handleStorageChange sample_parse_messages sample_state
        \<lparr>key = Some ''chatMessages'',
         newValue = localStorage (saveMessagesToStorage sample_stringify
                                    (sample_state\<lparr>messages := take 2 sample_messages\<rparr>))
                      ''chatMessages''\<rparr>))
        \<lparr>role = User, content = ''Who is Steve?'', timestamp = Some 10\<rparr> = 1"
proof -
  have c: "isClient (sample_state\<lparr>messages := sample_messages\<rparr>)" "isClient sample_state"
    "isClient (sample_state\<lparr>messages := take 2 sample_messages\<rparr>)"
    by (simp_all add: sample_state_def)
  have p: "sample_stringify (messagesToSave sample_messages) \<noteq> []"
    "sample_parse_messages (sample_stringify (messagesToSave sample_messages)) =
       MessageArray (messagesToSave sample_messages)"
    unfolding sample_saved by (rule sample_text_parses)+
  have p1: "sample_stringify (messagesToSave (messages (sample_state\<lparr>messages := sample_messages\<rparr>))) \<noteq> []"
    "sample_parse_messages (sample_stringify (messagesToSave (messages (sample_state\<lparr>messages := sample_messages\<rparr>)))) =
       MessageArray (messagesToSave (messages (sample_state\<lparr>messages := sample_messages\<rparr>)))"
    using p by simp_all
  have p2: "sample_stringify (messagesToSave (messages (sample_state\<lparr>messages := take 2 sample_messages\<rparr>))) \<noteq> []"
    "sample_parse_messages (sample_stringify (messagesToSave (messages (sample_state\<lparr>messages := take 2 sample_messages\<rparr>)))) =
       MessageArray (messagesToSave (messages (sample_state\<lparr>messages := take 2 sample_messages\<rparr>)))"
    using sample_text_parses by (simp_all add: sample_saved_kept)
  note a = peer_tab_renders_saved_messages[of "sample_state\<lparr>messages := sample_messages\<rparr>"
      sample_state sample_stringify sample_parse_messages, OF c(1) c(2) p1, unfolded Let_def]
  note b = peer_tab_renders_saved_messages[of "sample_state\<lparr>messages := take 2 sample_messages\<rparr>"
      sample_state sample_stringify sample_parse_messages, OF c(3) c(2) p2, unfolded Let_def]
  have m: "messages (sample_state\<lparr>messages := ms\<rparr>) = ms" for ms by simp
  have 1: "messages (handleStorageChange sample_parse_messages sample_state
        \<lparr>key = Some ''chatMessages'',
         newValue = localStorage (saveMessagesToStorage sample_stringify
                                    (sample_state\<lparr>messages := sample_messages\<rparr>)) ''chatMessages''\<rparr>)
      = [\<lparr>role = User, content = ''Who is Steve?'', timestamp = Some 10\<rparr>,
         \<lparr>role = Assistant, content = ''A product manager.'', timestamp = Some 11\<rparr>]"
    using a[THEN conjunct1] unfolding m sample_saved sample_kept .
  have 2: "count_list (renderedMessages (handleStorageChange sample_parse_messages sample_state
        \<lparr>key = Some ''chatMessages'',
         newValue = localStorage (saveMessagesToStorage sample_stringify
                                    (sample_state\<lparr>messages := sample_messages\<rparr>)) ''chatMessages''\<rparr>))
        \<lparr>role = User, content = ''Who is Steve?'', timestamp = Some 10\<rparr>
      \<le> count_list sample_messages \<lparr>role = User, content = ''Who is Steve?'', timestamp = Some 10\<rparr>"
    using a[THEN conjunct2, THEN conjunct2, THEN conjunct2, THEN conjunct1, rule_format,
            of "\<lparr>role = User, content = ''Who is Steve?'', timestamp = Some 10\<rparr>"]
    unfolding m .
  have 3: "count_list sample_messages \<lparr>role = User, content = ''Who is Steve?'', timestamp = Some 10\<rparr> = 1"
    by (simp add: sample_messages_def)
  have nf: "\<forall>m \<in> set (messages (sample_state\<lparr>messages := take 2 sample_messages\<rparr>)).
              \<not> (role m = Assistant \<and> content m \<in> set WITTY_MESSAGES)"
    unfolding m using messagesToSave_no_fallback[of _ "take 2 sample_messages"]
    unfolding sample_saved_kept by blast
  note b5 = b[THEN conjunct2, THEN conjunct2, THEN conjunct2, THEN conjunct2, THEN mp, OF nf]
  have 4: "messages (handleStorageChange sample_parse_messages sample_state
        \<lparr>key = Some ''chatMessages'',
         newValue = localStorage (saveMessagesToStorage sample_stringify
                                    (sample_state\<lparr>messages := take 2 sample_messages\<rparr>))
                      ''chatMessages''\<rparr>)
      = take 2 sample_messages"
    using b5[THEN conjunct1] unfolding m .
  have o: "isChatOpen (handleStorageChange sample_parse_messages sample_state
        \<lparr>key = Some ''chatMessages'',
         newValue = localStorage (saveMessagesToStorage sample_stringify
                                    (sample_state\<lparr>messages := take 2 sample_messages\<rparr>))
                      ''chatMessages''\<rparr>)"
    unfolding b[THEN conjunct2, THEN conjunct1] by (simp add: sample_state_def)
  have 5: "count_list (renderedMessages (handleStorageChange sample_parse_messages sample_state
        \<lparr>key = Some ''chatMessages'',
         newValue = localStorage (saveMessagesToStorage sample_stringify
                                    (sample_state\<lparr>messages := take 2 sample_messages\<rparr>))
                      ''chatMessages''\<rparr>))
        \<lparr>role = User, content = ''Who is Steve?'', timestamp = Some 10\<rparr> = 1"
    using b5[THEN conjunct2, rule_format,
             of "\<lparr>role = User, content = ''Who is Steve?'', timestamp = Some 10\<rparr>"] o
    unfolding m by (simp add: sample_contents sample_kept)
  show ?thesis
    by (intro conjI, rule c(1), rule c(2), rule p(1), rule p(2), rule 1, rule 2, rule 3, rule 4,
        rule 5)
qed

subsection \<open>Lines of the stream\<close>

lemma split_lines_nonempty [simp]: "split_lines s \<noteq> []"
  by (induction s) auto

lemma split_lines_append:
  "split_lines (x @ y) = butlast (split_lines x) @ split_lines (last (split_lines x) @ y)"
proof (induction x)
  case Nil
  show ?case by simp
next
  case (Cons c cs)
  show ?case
  proof (cases "split_lines cs")
    case Nil
    then show ?thesis by simp
  next
    case (Cons l ls)
    with Cons.IH show ?thesis by (cases ls) auto
  qed
qed

lemma split_lines_no_nl: "CHR 0x0A \<notin> set s \<Longrightarrow> split_lines s = [s]"
  by (induction s) auto

lemma last_split_lines_no_nl: "CHR 0x0A \<notin> set (last (split_lines s))"
proof (induction s)
  case Nil
  show ?case by simp
next
  case (Cons c cs)
  then show ?case by (cases "split_lines cs") auto
qed

lemma split_lines_first:
  "CHR 0x0A \<notin> set a \<Longrightarrow> split_lines (a @ CHR 0x0A # b) = a # split_lines b"
  by (induction a) auto

lemma spec_complete_lines_butlast: "spec_complete_lines s = butlast (split_lines s)"
proof (induction s rule: spec_complete_lines.induct)
  case (1 str)
  show ?case
  proof (cases "CHR 0x0A \<in> set str")
    case False
    then show ?thesis by (subst spec_complete_lines.simps) (simp add: split_lines_no_nl)
  next
    case True
    define a where "a = takeWhile (\<lambda>c. c \<noteq> CHR 0x0A) str"
    define b where "b = drop 1 (dropWhile (\<lambda>c. c \<noteq> CHR 0x0A) str)"
    have dw: "dropWhile (\<lambda>c. c \<noteq> CHR 0x0A) str \<noteq> []"
      using True by (simp add: dropWhile_eq_Nil_conv)
    then have "hd (dropWhile (\<lambda>c. c \<noteq> CHR 0x0A) str) = CHR 0x0A"
      using hd_dropWhile[of "\<lambda>c. c \<noteq> CHR 0x0A" str] by simp
    with dw have "dropWhile (\<lambda>c. c \<noteq> CHR 0x0A) str = CHR 0x0A # b"
      unfolding b_def by (cases "dropWhile (\<lambda>c. c \<noteq> CHR 0x0A) str") auto
    then have str: "str = a @ CHR 0x0A # b"
      unfolding a_def using takeWhile_dropWhile_id[of "\<lambda>c. c \<noteq> CHR 0x0A" str] by simp
    have a: "CHR 0x0A \<notin> set a"
      unfolding a_def by (auto dest: set_takeWhileD)
    have "split_lines str = a # split_lines b"
      unfolding str using a by (rule split_lines_first)
    moreover have "spec_complete_lines str = a # spec_complete_lines b"
      using True by (subst spec_complete_lines.simps) (simp add: a_def b_def)
    moreover have "spec_complete_lines b = butlast (split_lines b)"
      using "1.IH"[OF True] by (simp add: b_def)
    ultimately show ?thesis by simp
  qed
qed

subsection \<open>The loop over lines in closed form\<close>

lemma process_line_buffer [simp]: "buffer (process_line parse toStr now s line) = buffer s"
  by (simp add: process_line_def Let_def split: option.splits)

lemma foldl_process_line_buffer [simp]:
  "buffer (foldl (process_line parse toStr now) s ls) = buffer s"
  by (induction ls arbitrary: s) auto

lemma process_line_buffer_update:
  "process_line parse toStr now (s\<lparr>buffer := b\<rparr>) line = (process_line parse toStr now s line)\<lparr>buffer := b\<rparr>"
  by (simp add: process_line_def Let_def split: option.splits)

lemma foldl_process_line_buffer_update:
  "foldl (process_line parse toStr now) (s\<lparr>buffer := b\<rparr>) ls =
   (foldl (process_line parse toStr now) s ls)\<lparr>buffer := b\<rparr>"
  by (induction ls arbitrary: s) (auto simp: process_line_buffer_update)

text \<open>Once the assistant message is there, every delta extends its content.\<close>

lemma foldl_process_line_added:
  assumes "assistantMessageAdded s" "messages (chat s) = ms @ [m]"
  shows "foldl (process_line parse toStr now) s ls =
         (if List.map_filter (line_delta parse toStr) ls = [] then s
          else s\<lparr>currentAssistantContent :=
                    currentAssistantContent s @ concat (List.map_filter (line_delta parse toStr) ls),
                  chat := (chat s)\<lparr>messages := ms @
                    [m\<lparr>content := currentAssistantContent s @
                          concat (List.map_filter (line_delta parse toStr) ls)\<rparr>]\<rparr>\<rparr>)"
  using assms
proof (induction ls arbitrary: s m)
  case Nil
  show ?case by simp
next
  case (Cons l ls)
  show ?case
  proof (cases "line_delta parse toStr l")
    case None
    then have "process_line parse toStr now s l = s" by (simp add: process_line_def)
    with None Cons show ?thesis by simp
  next
    case (Some d)
    define s' where "s' = process_line parse toStr now s l"
    have s': "s' = s\<lparr>currentAssistantContent := currentAssistantContent s @ d,
                      chat := (chat s)\<lparr>messages := ms @ [m\<lparr>content := currentAssistantContent s @ d\<rparr>]\<rparr>\<rparr>"
      using Some Cons.prems by (simp add: s'_def process_line_def Let_def)
    have "assistantMessageAdded s'" "messages (chat s') = ms @ [m\<lparr>content := currentAssistantContent s @ d\<rparr>]"
      using Cons.prems by (simp_all add: s')
    from Cons.IH[OF this] Some show ?thesis
      by (simp add: s'_def[symmetric]) (simp add: s')
  qed
qed

lemma foldl_process_line_fresh:
  assumes "\<not> assistantMessageAdded s" "currentAssistantContent s = []"
  shows "foldl (process_line parse toStr now) s ls =
         (if List.map_filter (line_delta parse toStr) ls = [] then s
          else s\<lparr>currentAssistantContent := concat (List.map_filter (line_delta parse toStr) ls),
                  assistantMessageAdded := True,
                  chat := (chat s)\<lparr>messages := messages (chat s) @
                    [\<lparr>role = Assistant,
                      content = concat (List.map_filter (line_delta parse toStr) ls),
                      timestamp = Some now\<rparr>]\<rparr>\<rparr>)"
  using assms
proof (induction ls arbitrary: s)
  case Nil
  show ?case by simp
next
  case (Cons l ls)
  show ?case
  proof (cases "line_delta parse toStr l")
    case None
    then have "process_line parse toStr now s l = s" by (simp add: process_line_def)
    with None Cons show ?thesis by simp
  next
    case (Some d)
    define s' where "s' = process_line parse toStr now s l"
    have s': "s' = s\<lparr>currentAssistantContent := d, assistantMessageAdded := True,
                      chat := (chat s)\<lparr>messages := messages (chat s) @
                         [\<lparr>role = Assistant, content = d, timestamp = Some now\<rparr>]\<rparr>\<rparr>"
      using Some Cons.prems by (simp add: s'_def process_line_def Let_def)
    have "assistantMessageAdded s'"
      "messages (chat s') = messages (chat s) @ [\<lparr>role = Assistant, content = d, timestamp = Some now\<rparr>]"
      by (simp_all add: s')
    from foldl_process_line_added[OF this, of parse toStr now ls] Some show ?thesis
      by (simp add: s'_def[symmetric]) (simp add: s')
  qed
qed


lemma read_chunks_whole:
  assumes "CHR 0x0A \<notin> set (buffer s)"
  shows "read_chunks parse toStr now s chunks =
         (foldl (process_line parse toStr now) s
                (butlast (split_lines (buffer s @ concat chunks))))
           \<lparr>buffer := last (split_lines (buffer s @ concat chunks))\<rparr>"
  using assms
proof (induction chunks arbitrary: s)
  case Nil
  then show ?case by (simp add: split_lines_no_nl)
next
  case (Cons c rest)
  define ls1 where "ls1 = split_lines (buffer s @ c)"
  define s2 where "s2 = foldl (process_line parse toStr now) (s\<lparr>buffer := last ls1\<rparr>) (butlast ls1)"
  have s2: "s2 = (foldl (process_line parse toStr now) s (butlast ls1))\<lparr>buffer := last ls1\<rparr>"
    unfolding s2_def by (rule foldl_process_line_buffer_update)
  have b2: "buffer s2 = last ls1" by (simp add: s2)
  have "CHR 0x0A \<notin> set (buffer s2)"
    unfolding b2 ls1_def by (rule last_split_lines_no_nl)
  from Cons.IH[OF this]
  have IH: "read_chunks parse toStr now s2 rest =
            (foldl (process_line parse toStr now) s2
                   (butlast (split_lines (last ls1 @ concat rest))))
              \<lparr>buffer := last (split_lines (last ls1 @ concat rest))\<rparr>"
    by (simp add: b2)
  have sp: "split_lines (buffer s @ concat (c # rest)) =
            butlast ls1 @ split_lines (last ls1 @ concat rest)"
    using split_lines_append[of "buffer s @ c" "concat rest"] by (simp add: ls1_def)
  have "read_chunks parse toStr now s (c # rest) = read_chunks parse toStr now s2 rest"
    by (simp add: Let_def s2_def ls1_def)
  also note IH
  finally show ?case
    unfolding sp by (simp add: butlast_append s2 foldl_process_line_buffer_update)
qed

lemma read_chunks_fresh:
  assumes "buffer s = []" "\<not> assistantMessageAdded s" "currentAssistantContent s = []"
  shows "read_chunks parse toStr now s chunks =
         (let deltas = List.map_filter (line_delta parse toStr) (spec_complete_lines (concat chunks));
              s1 = s\<lparr>buffer := last (split_lines (concat chunks))\<rparr>
          in if deltas = [] then s1
             else s1\<lparr>currentAssistantContent := concat deltas,
                     assistantMessageAdded := True,
                     chat := (chat s)\<lparr>messages := messages (chat s) @
                        [\<lparr>role = Assistant, content = concat deltas, timestamp = Some now\<rparr>]\<rparr>\<rparr>)"
proof -
  have "CHR 0x0A \<notin> set (buffer s)" using assms by simp
  from read_chunks_whole[OF this, of parse toStr now chunks] assms
  show ?thesis
    by (simp add: Let_def spec_complete_lines_butlast foldl_process_line_fresh)
qed



text \<open>
  Claim C4. However the body is cut into reads, the loop ends in the state that one read of
  the whole text gives; the content assembled is the concatenation, in order, of the deltas
  of the complete lines of the text (a line that fails to parse has no delta), and the
  assistant message, pushed when the first delta arrives, carries it.
\<close>

theorem chunked_parse_equals_whole_parse:
  "(let fresh = \<lparr>chat = st, buffer = [], currentAssistantContent = [],
                   assistantMessageAdded = False\<rparr>;
        deltas = List.map_filter (line_delta parse toStr) (spec_complete_lines (concat chunks));
        s = read_chunks parse toStr now fresh chunks
    in s = read_chunks parse toStr now fresh [concat chunks]
     \<and> currentAssistantContent s = concat deltas
     \<and> messages (chat s) =
         messages st @ (if deltas = [] then []
                        else [\<lparr>role = Assistant, content = concat deltas, timestamp = Some now\<rparr>]))
   \<and> sendMessage parse toStr clock random (Resolved (response\<lparr>body := Some (chunks, ending)\<rparr>)) st0
     = sendMessage parse toStr clock random
         (Resolved (response\<lparr>body := Some ([concat chunks], ending)\<rparr>)) st0"
proof -
  have eq: "read_chunks parse toStr now s chunks = read_chunks parse toStr now s [concat chunks]"
    if "buffer s = []" "\<not> assistantMessageAdded s" "currentAssistantContent s = []"
    for s now
    using read_chunks_fresh[OF that, of parse toStr now chunks]
          read_chunks_fresh[OF that, of parse toStr now "[concat chunks]"] by simp
  have 1: "sendMessage parse toStr clock random (Resolved (response\<lparr>body := Some (chunks, ending)\<rparr>)) st0
     = sendMessage parse toStr clock random
         (Resolved (response\<lparr>body := Some ([concat chunks], ending)\<rparr>)) st0"
    unfolding sendMessage_def stream_reply_def Let_def
    by (auto split: option.splits ReadEnd.splits simp: eq)
  show ?thesis
    unfolding Let_def
    apply (intro conjI)
       apply (rule eq; simp)
      apply (simp add: read_chunks_fresh Let_def)
     apply (simp add: read_chunks_fresh Let_def)
    apply (rule 1)
    done
qed

lemma getRandomWittyMessage_in:
  assumes "0 \<le> random" "random < 1"
  shows "getRandomWittyMessage random \<in> set WITTY_MESSAGES"
proof -
  have len: "length WITTY_MESSAGES = 10" by (simp add: WITTY_MESSAGES_def)
  have "random * 10 < 10" using assms by simp
  then have "\<lfloor>random * 10\<rfloor> < 10" by (subst floor_less_iff) simp
  moreover have "0 \<le> \<lfloor>random * 10\<rfloor>" using assms by simp
  ultimately have "nat \<lfloor>random * 10\<rfloor> < 10" by linarith
  then have "nat \<lfloor>random * real (length WITTY_MESSAGES)\<rfloor> < length WITTY_MESSAGES"
    by (simp add: len)
  then show ?thesis unfolding getRandomWittyMessage_def by (rule nth_mem)
qed

lemma trim_is_empty_Nil: "trim_is_empty []"
  by (subst trim_is_empty.simps) simp

lemma request_state_messages:
  "messages (request_state clock st) =
   messages st @ [\<lparr>role = User, content = userInput st, timestamp = Some (userAt clock)\<rparr>]"
  by (simp add: request_state_def Let_def)

text \<open>The end of a stream that failed after some reads.\<close>

lemma failed_stream_messages:
  assumes "buffer s = []" "\<not> assistantMessageAdded s" "currentAssistantContent s = []"
  shows "messages (chat (on_stream_error random t
                          (read_chunks parse toStr now s chunks))) =
         (let deltas = List.map_filter (line_delta parse toStr) (spec_complete_lines (concat chunks))
          in messages (chat s) @
             [\<lparr>role = Assistant,
               content = (if trim_is_empty (concat deltas) then getRandomWittyMessage random
                          else concat deltas),
               timestamp = Some (if deltas = [] then t else now)\<rparr>])"
  using assms
  by (simp add: read_chunks_fresh Let_def on_stream_error_def trim_is_empty_Nil)

lemma failed_reply_messages:
  assumes "request_failed fetched"
  shows "messages (chat (stream_reply parse toStr clock random fetched st)) =
         (let deltas = received_deltas parse toStr fetched
          in messages st @
             [\<lparr>role = Assistant,
               content = (if trim_is_empty (concat deltas) then getRandomWittyMessage random
                          else concat deltas),
               timestamp = Some (if deltas = [] then fallbackAt clock else assistantAt clock)\<rparr>])"
proof (cases fetched)
  case Rejected
  show ?thesis unfolding Rejected
    by (simp add: stream_reply_def received_deltas_def on_stream_error_def trim_is_empty_Nil)
next
  case (Resolved response)
  show ?thesis
  proof (cases "ok response")
    case False
    then show ?thesis unfolding Resolved
      by (simp add: stream_reply_def received_deltas_def on_stream_error_def trim_is_empty_Nil)
  next
    case ok: True
    show ?thesis
    proof (cases "body response")
      case None
      with ok show ?thesis unfolding Resolved
        by (simp add: stream_reply_def received_deltas_def on_stream_error_def trim_is_empty_Nil)
    next
      case (Some b)
      with ok assms Resolved obtain chunks where b: "body response = Some (chunks, ReadFailed)"
        by (cases b) (auto simp: request_failed_def)
      show ?thesis unfolding Resolved
        by (simp add: b ok stream_reply_def received_deltas_def failed_stream_messages Let_def
                 split: option.splits)
    qed
  qed
qed



text \<open>
  Claim C3, as amended. When the request fails, exactly one assistant message follows the
  user's message: a fallback message when the content received is empty or only white
  space, the content received otherwise.
\<close>

theorem failed_request_appends_one_assistant_message:
  assumes "\<not> trim_is_empty (userInput st)" and "request_failed fetched"
  shows "(let deltas = received_deltas parse toStr fetched;
              received = concat deltas
          in messages (sendMessage parse toStr clock random fetched st) =
             messages st @
             [\<lparr>role = User, content = userInput st, timestamp = Some (userAt clock)\<rparr>,
              \<lparr>role = Assistant,
               content = (if trim_is_empty received then getRandomWittyMessage random
                          else received),
               timestamp = Some (if deltas = [] then fallbackAt clock else assistantAt clock)\<rparr>])
         \<and> (0 \<le> random \<and> random < 1 \<longrightarrow> getRandomWittyMessage random \<in> set WITTY_MESSAGES)"
  using assms getRandomWittyMessage_in[of random]
  by (simp add: sendMessage_def failed_reply_messages request_state_messages Let_def)


lemma trim_is_empty_Hello: "\<not> trim_is_empty ''Hello''"
  by (subst trim_is_empty.simps) (simp add: ascii_space_def space2_def space3_def)

lemma trim_is_empty_space: "trim_is_empty '' ''"
  by (subst trim_is_empty.simps, simp add: ascii_space_def, subst trim_is_empty.simps, simp)

lemma sample_state_fields:
  "userInput sample_state = ''Hello''" "messages sample_state = []"
  by (simp_all add: sample_state_def)

lemma sample_clock_fields:
  "userAt sample_clock = 1000" "assistantAt sample_clock = 1200" "fallbackAt sample_clock = 1500"
  by (simp_all add: sample_clock_def)

lemma sample_deltas:
  "List.map_filter (line_delta sample_parse (\<lambda>v. []))
     (spec_complete_lines (concat sample_chunks)) = [''Hi'', '' there'']"
  by code_simp

lemma sample_space_deltas:
  "List.map_filter (line_delta sample_parse (\<lambda>v. []))
     (spec_complete_lines (concat [delta_line '' '' @ [CHR 0x0A]])) = ['' '']"
  by code_simp

theorem failed_request_appends_one_assistant_message_witness:
  "\<not> trim_is_empty (userInput sample_state)
   \<and> request_failed Rejected
   \<and> request_failed (Resolved \<lparr>ok = True, threadIdHeader = None,
                                body = Some (sample_chunks, ReadFailed)\<rparr>)
   \<and> messages (sendMessage sample_parse (\<lambda>v. []) sample_clock 0 Rejected sample_state) =
       [\<lparr>role = User, content = ''Hello'', timestamp = Some 1000\<rparr>,
        \<lparr>role = Assistant, content = getRandomWittyMessage 0, timestamp = Some 1500\<rparr>]
   \<and> getRandomWittyMessage 0 \<in> set WITTY_MESSAGES
   \<and> messages (sendMessage sample_parse (\<lambda>v. []) sample_clock 0
                  (Resolved \<lparr>ok = True, threadIdHeader = None,
                              body = Some (sample_chunks, ReadFailed)\<rparr>) sample_state) =
       [\<lparr>role = User, content = ''Hello'', timestamp = Some 1000\<rparr>,
        \<lparr>role = Assistant, content = ''Hi there'', timestamp = Some 1200\<rparr>]"
proof -
  have h: "\<not> trim_is_empty (userInput sample_state)"
    by (simp add: sample_state_fields trim_is_empty_Hello)
  have f1: "request_failed Rejected"
    by (simp add: request_failed_def)
  have f2: "request_failed (Resolved \<lparr>ok = True, threadIdHeader = None,
                                      body = Some (sample_chunks, ReadFailed)\<rparr>)"
    by (simp add: request_failed_def)
  have r1: "received_deltas sample_parse (\<lambda>v. []) Rejected = []"
    by (simp add: received_deltas_def)
  have r2: "received_deltas sample_parse (\<lambda>v. [])
              (Resolved \<lparr>ok = True, threadIdHeader = None,
                          body = Some (sample_chunks, ReadFailed)\<rparr>) = [''Hi'', '' there'']"
    by (simp add: received_deltas_def sample_deltas)
  have b: "\<not> trim_is_empty ''Hi there''"
    by (subst trim_is_empty.simps) (simp add: ascii_space_def space2_def space3_def)
  note w1 = failed_request_appends_one_assistant_message[OF h f1,
              of sample_parse "\<lambda>v. []" sample_clock 0, unfolded Let_def r1]
  note w2 = failed_request_appends_one_assistant_message[OF h f2,
              of sample_parse "\<lambda>v. []" sample_clock 0, unfolded Let_def r2]
  have 1: "messages (sendMessage sample_parse (\<lambda>v. []) sample_clock 0 Rejected sample_state) =
       [\<lparr>role = User, content = ''Hello'', timestamp = Some 1000\<rparr>,
        \<lparr>role = Assistant, content = getRandomWittyMessage 0, timestamp = Some 1500\<rparr>]"
    using w1 by (simp add: trim_is_empty_Nil sample_state_fields sample_clock_fields)
  have 2: "getRandomWittyMessage 0 \<in> set WITTY_MESSAGES"
    using w1 by simp
  have 3: "messages (sendMessage sample_parse (\<lambda>v. []) sample_clock 0
                  (Resolved \<lparr>ok = True, threadIdHeader = None,
                              body = Some (sample_chunks, ReadFailed)\<rparr>) sample_state) =
       [\<lparr>role = User, content = ''Hello'', timestamp = Some 1000\<rparr>,
        \<lparr>role = Assistant, content = ''Hi there'', timestamp = Some 1200\<rparr>]"
    using w2 b by (simp add: sample_state_fields sample_clock_fields)
  show ?thesis
    by (intro conjI, rule h, rule f1, rule f2, rule 1, rule 2, rule 3)
qed

text \<open>
  Claim C3 as stated fails where the content received is white space: the request below
  fails after the delta of one blank has arrived, and the content of the assistant message
  is then a fallback message, not the blank.
\<close>

theorem whitespace_partial_content_replaced:
  "request_failed (Resolved \<lparr>ok = True, threadIdHeader = None,
                              body = Some ([delta_line '' '' @ [CHR 0x0A]], ReadFailed)\<rparr>)
   \<and> concat (received_deltas sample_parse (\<lambda>v. [])
        (Resolved \<lparr>ok = True, threadIdHeader = None,
                    body = Some ([delta_line '' '' @ [CHR 0x0A]], ReadFailed)\<rparr>)) = '' ''
   \<and> content (last (messages (sendMessage sample_parse (\<lambda>v. []) sample_clock 0
        (Resolved \<lparr>ok = True, threadIdHeader = None,
                    body = Some ([delta_line '' '' @ [CHR 0x0A]], ReadFailed)\<rparr>) sample_state)))
      \<noteq> '' ''"
proof -
  have f: "request_failed (Resolved \<lparr>ok = True, threadIdHeader = None,
                              body = Some ([delta_line '' '' @ [CHR 0x0A]], ReadFailed)\<rparr>)"
    by (simp add: request_failed_def)
  have r: "received_deltas sample_parse (\<lambda>v. [])
        (Resolved \<lparr>ok = True, threadIdHeader = None,
                    body = Some ([delta_line '' '' @ [CHR 0x0A]], ReadFailed)\<rparr>) = ['' '']"
    unfolding received_deltas_def using sample_space_deltas by simp
  have h: "\<not> trim_is_empty (userInput sample_state)"
    by (simp add: sample_state_fields trim_is_empty_Hello)
  have "messages (sendMessage sample_parse (\<lambda>v. []) sample_clock 0
        (Resolved \<lparr>ok = True, threadIdHeader = None,
                    body = Some ([delta_line '' '' @ [CHR 0x0A]], ReadFailed)\<rparr>) sample_state)
       = messages sample_state @
         [\<lparr>role = User, content = userInput sample_state, timestamp = Some (userAt sample_clock)\<rparr>,
          \<lparr>role = Assistant, content = getRandomWittyMessage 0,
           timestamp = Some (assistantAt sample_clock)\<rparr>]"
    using h f r trim_is_empty_space
    by (simp add: sendMessage_def failed_reply_messages request_state_messages Let_def)
  moreover have "getRandomWittyMessage 0 \<noteq> '' ''"
    by code_simp
  ultimately show ?thesis using f r by simp
qed

theorem chunked_parse_equals_whole_parse_witness:
  "messages (chat (read_chunks sample_parse (\<lambda>v. []) 1200
       \<lparr>chat = sample_state, buffer = [], currentAssistantContent = [],
        assistantMessageAdded = False\<rparr> sample_chunks))
   = [\<lparr>role = Assistant, content = ''Hi there'', timestamp = Some 1200\<rparr>]
   \<and> read_chunks sample_parse (\<lambda>v. []) 1200
       \<lparr>chat = sample_state, buffer = [], currentAssistantContent = [],
        assistantMessageAdded = False\<rparr> sample_chunks
     = read_chunks sample_parse (\<lambda>v. []) 1200
       \<lparr>chat = sample_state, buffer = [], currentAssistantContent = [],
        assistantMessageAdded = False\<rparr> [concat sample_chunks]"
proof -
  note w = chunked_parse_equals_whole_parse[where st = sample_state and parse = sample_parse
             and toStr = "\<lambda>v. []" and chunks = sample_chunks and now = 1200
             and clock = sample_clock and random = 0
             and response = "\<lparr>ok = True, threadIdHeader = None, body = None\<rparr>"
             and ending = Done and ?st0.0 = sample_state, unfolded Let_def sample_deltas]
  have 1: "messages (chat (read_chunks sample_parse (\<lambda>v. []) 1200
       \<lparr>chat = sample_state, buffer = [], currentAssistantContent = [],
        assistantMessageAdded = False\<rparr> sample_chunks))
   = [\<lparr>role = Assistant, content = ''Hi there'', timestamp = Some 1200\<rparr>]"
    using w[THEN conjunct1, THEN conjunct2, THEN conjunct2] by (simp add: sample_state_fields)
  have 2: "read_chunks sample_parse (\<lambda>v. []) 1200
       \<lparr>chat = sample_state, buffer = [], currentAssistantContent = [],
        assistantMessageAdded = False\<rparr> sample_chunks
     = read_chunks sample_parse (\<lambda>v. []) 1200
       \<lparr>chat = sample_state, buffer = [], currentAssistantContent = [],
        assistantMessageAdded = False\<rparr> [concat sample_chunks]"
    using w[THEN conjunct1, THEN conjunct1] .
  show ?thesis by (intro conjI, rule 1, rule 2)
qed

section \<open>Flight map: properties\<close>

subsection \<open>The route map groups the flights by unordered pair\<close>

lemma key_inj:
  "CHR ''-'' \<notin> set a \<Longrightarrow> CHR ''-'' \<notin> set c \<Longrightarrow> a @ ''-'' @ b = c @ ''-'' @ d
   \<Longrightarrow> a = c \<and> b = d"
proof (induction a arbitrary: c)
  case Nil
  then show ?case by (cases c) auto
next
  case (Cons x a)
  then show ?case by (cases c) auto
qed

lemma update_entry_map:
  "distinct (map fst m) \<Longrightarrow>
   update_entry k g m = map (\<lambda>(k', v). (k', if k' = k then g v else v)) m"
proof (induction m)
  case Nil
  show ?case by simp
next
  case (Cons e m)
  obtain k' v where e: "e = (k', v)" by (cases e)
  have "map (\<lambda>(k', v). (k', if k' = k then g v else v)) m = m" if "k \<notin> fst ` set m"
    using that by (induction m) auto
  with Cons show ?case by (auto simp: e)
qed

lemma aggregates_keys_distinct:
  assumes "aggregates valid m fs" and nh: "\<And>c. valid c \<Longrightarrow> CHR ''-'' \<notin> set c"
  shows "distinct (map fst m)"
proof -
  have k: "\<forall>e \<in> set m. fst e = from' (snd e) @ ''-'' @ to' (snd e)"
    and d: "distinct (map (\<lambda>e. {from' (snd e), to' (snd e)}) m)"
    using assms(1) by (auto simp: aggregates_def)
  from d have "inj_on (\<lambda>e. {from' (snd e), to' (snd e)}) (set m)" "distinct m"
    by (simp_all add: distinct_map)
  moreover have "inj_on fst (set m)"
  proof (rule inj_onI)
    fix x y assume xy: "x \<in> set m" "y \<in> set m" "fst x = fst y"
    from k xy have "fst x = from' (snd x) @ ''-'' @ to' (snd x)" "fst y = from' (snd y) @ ''-'' @ to' (snd y)"
      by (auto simp: case_prod_beta)
    with xy(3) have "{from' (snd x), to' (snd x)} = {from' (snd y), to' (snd y)}"
      using key_inj[of "from' (snd x)" "from' (snd y)" "to' (snd x)" "to' (snd y)"] nh assms(1) xy
      by (auto simp: aggregates_def case_prod_beta)
    with \<open>inj_on (\<lambda>e. {from' (snd e), to' (snd e)}) (set m)\<close> xy show "x = y"
      by (auto dest: inj_onD)
  qed
  ultimately show ?thesis by (simp add: distinct_map)
qed


lemma aggregates_skip:
  assumes "aggregates valid m fs" "\<not> valid_flight valid f"
  shows "aggregates valid m (fs @ [f])"
  using assms unfolding aggregates_def by simp

lemma aggregates_bump:
  fixes m :: "(string \<times> 'a Route_scheme) list"
  assumes inv: "aggregates valid m fs"
    and nh: "\<And>c. valid c \<Longrightarrow> CHR ''-'' \<notin> set c"
    and vf: "valid_flight valid f"
    and e0: "e0 \<in> set m" "{from' (snd e0), to' (snd e0)} = {origin f, destination f}"
    and bump: "\<And>r. from' (bump r) = from' r \<and> to' (bump r) = to' r \<and>
                     count (bump r) = count r + 1 \<and> flights (bump r) = flights r @ [f]"
  shows "aggregates valid (update_entry (fst e0) bump m) (fs @ [f])"
proof -
  let ?u = "\<lambda>e. {from' (snd e), to' (snd e)}"
  let ?g = "\<lambda>(k', v). (k', if k' = fst e0 then bump v else v)"
  have dk: "distinct (map fst m)" using inv nh by (rule aggregates_keys_distinct)
  have upd: "update_entry (fst e0) bump m = map ?g m"
    using dk by (rule update_entry_map)
  have du: "distinct (map ?u m)" using inv unfolding aggregates_def by simp
  have u_g: "?u (?g e) = ?u e" for e using bump by (simp add: case_prod_beta)
  have same: "e = e0" if "e \<in> set m" "?u e = {origin f, destination f}" for e
  proof -
    have "inj_on ?u (set m)" using du by (simp add: distinct_map)
    then show ?thesis using that e0 by (auto dest: inj_onD)
  qed
  have key0: "fst e = fst e0 \<longleftrightarrow> e = e0" if "e \<in> set m" for e
  proof -
    have "inj_on fst (set m)" using dk by (simp add: distinct_map)
    then show ?thesis using that e0(1) by (auto dest: inj_onD)
  qed
  show ?thesis
    unfolding upd aggregates_def
  proof (intro conjI)
   show "\<forall>e' \<in> set (map ?g m).
        fst e' = from' (snd e') @ ''-'' @ to' (snd e') \<and> valid (from' (snd e')) \<and> valid (to' (snd e')) \<and>
        flights (snd e') =
          filter (\<lambda>f. valid_flight valid f \<and> {origin f, destination f} = ?u e') (fs @ [f]) \<and>
        count (snd e') = length (filter (\<lambda>f. valid_flight valid f \<and> {origin f, destination f} = ?u e') (fs @ [f])) \<and>
        filter (\<lambda>f. valid_flight valid f \<and> {origin f, destination f} = ?u e') (fs @ [f]) \<noteq> []"
   proof
    fix e' assume "e' \<in> set (map ?g m)"
    then obtain e where e: "e \<in> set m" "e' = ?g e" by auto
    have old: "fst e = from' (snd e) @ ''-'' @ to' (snd e) \<and> valid (from' (snd e)) \<and> valid (to' (snd e)) \<and>
        flights (snd e) =
          filter (\<lambda>f. valid_flight valid f \<and> {origin f, destination f} = ?u e) fs \<and>
        count (snd e) = length (filter (\<lambda>f. valid_flight valid f \<and> {origin f, destination f} = ?u e) fs) \<and>
        filter (\<lambda>f. valid_flight valid f \<and> {origin f, destination f} = ?u e) fs \<noteq> []"
      using inv e(1) unfolding aggregates_def by blast
    show "fst e' = from' (snd e') @ ''-'' @ to' (snd e') \<and> valid (from' (snd e')) \<and> valid (to' (snd e')) \<and>
        flights (snd e') =
          filter (\<lambda>f. valid_flight valid f \<and> {origin f, destination f} = ?u e') (fs @ [f]) \<and>
        count (snd e') = length (filter (\<lambda>f. valid_flight valid f \<and> {origin f, destination f} = ?u e') (fs @ [f])) \<and>
        filter (\<lambda>f. valid_flight valid f \<and> {origin f, destination f} = ?u e') (fs @ [f]) \<noteq> []"
    proof (cases "e = e0")
      case True
      then have "e' = (fst e, bump (snd e))" using e(2) by (simp add: case_prod_beta)
      with old bump vf e0(2) True show ?thesis by simp
    next
      case False
      with key0[OF e(1)] have "e' = e" using e(2) by (simp add: case_prod_beta)
      moreover have "?u e \<noteq> {origin f, destination f}" using same[OF e(1)] False by blast
      ultimately show ?thesis using old by auto
    qed
   qed
  next
    show "distinct (map ?u (map ?g m))"
      using du u_g by (simp add: comp_def)
  next
   show "\<forall>g \<in> set (fs @ [f]). valid_flight valid g \<longrightarrow>
           (\<exists>e \<in> set (map ?g m). {origin g, destination g} = ?u e)"
   proof (intro ballI impI)
    fix g assume g: "g \<in> set (fs @ [f])" "valid_flight valid g"
    have "\<exists>e \<in> set m. {origin g, destination g} = ?u e"
    proof (cases "g \<in> set fs")
      case True
      with inv g(2) show ?thesis unfolding aggregates_def by blast
    next
      case False
      with g(1) have "g = f" by simp
      with e0 show ?thesis by auto
    qed
    then obtain e where "e \<in> set m" "{origin g, destination g} = ?u e" by blast
    then have "?g e \<in> set (map ?g m)" "{origin g, destination g} = ?u (?g e)"
      using u_g[of e] by auto
    then show "\<exists>e \<in> set (map ?g m). {origin g, destination g} = ?u e" by blast
   qed
  qed
qed

lemma aggregates_append:
  fixes m :: "(string \<times> 'a Route_scheme) list"
  assumes inv: "aggregates valid m fs"
    and vf: "valid_flight valid f"
    and none: "\<And>e. e \<in> set m \<Longrightarrow> {from' (snd e), to' (snd e)} \<noteq> {origin f, destination f}"
    and new: "from' new = origin f \<and> to' new = destination f \<and> count new = 1 \<and> flights new = [f]"
  shows "aggregates valid (m @ [(origin f @ ''-'' @ destination f, new)]) (fs @ [f])"
proof -
  let ?u = "\<lambda>e. {from' (snd e), to' (snd e)}"
  have nofl: "filter (\<lambda>g. valid_flight valid g \<and> {origin g, destination g} = {origin f, destination f}) fs = []"
  proof -
    have "\<not> (valid_flight valid g \<and> {origin g, destination g} = {origin f, destination f})"
      if "g \<in> set fs" for g
    proof
      assume a: "valid_flight valid g \<and> {origin g, destination g} = {origin f, destination f}"
      with inv that obtain e where "e \<in> set m" "{origin g, destination g} = ?u e"
        unfolding aggregates_def by blast
      with none[of e] a show False by simp
    qed
    then show ?thesis by (simp add: filter_empty_conv)
  qed
  show ?thesis
    unfolding aggregates_def
  proof (intro conjI)
   show "\<forall>e \<in> set (m @ [(origin f @ ''-'' @ destination f, new)]).
        fst e = from' (snd e) @ ''-'' @ to' (snd e) \<and> valid (from' (snd e)) \<and> valid (to' (snd e)) \<and>
        flights (snd e) =
          filter (\<lambda>f. valid_flight valid f \<and> {origin f, destination f} = ?u e) (fs @ [f]) \<and>
        count (snd e) = length (filter (\<lambda>f. valid_flight valid f \<and> {origin f, destination f} = ?u e) (fs @ [f])) \<and>
        filter (\<lambda>f. valid_flight valid f \<and> {origin f, destination f} = ?u e) (fs @ [f]) \<noteq> []"
   proof
    fix e assume "e \<in> set (m @ [(origin f @ ''-'' @ destination f, new)])"
    then consider "e \<in> set m" | "e = (origin f @ ''-'' @ destination f, new)" by auto
    then show "fst e = from' (snd e) @ ''-'' @ to' (snd e) \<and> valid (from' (snd e)) \<and> valid (to' (snd e)) \<and>
        flights (snd e) =
          filter (\<lambda>f. valid_flight valid f \<and> {origin f, destination f} = ?u e) (fs @ [f]) \<and>
        count (snd e) = length (filter (\<lambda>f. valid_flight valid f \<and> {origin f, destination f} = ?u e) (fs @ [f])) \<and>
        filter (\<lambda>f. valid_flight valid f \<and> {origin f, destination f} = ?u e) (fs @ [f]) \<noteq> []"
    proof cases
      case 1
      with inv have "fst e = from' (snd e) @ ''-'' @ to' (snd e) \<and> valid (from' (snd e)) \<and> valid (to' (snd e)) \<and>
        flights (snd e) =
          filter (\<lambda>f. valid_flight valid f \<and> {origin f, destination f} = ?u e) fs \<and>
        count (snd e) = length (filter (\<lambda>f. valid_flight valid f \<and> {origin f, destination f} = ?u e) fs) \<and>
        filter (\<lambda>f. valid_flight valid f \<and> {origin f, destination f} = ?u e) fs \<noteq> []"
        unfolding aggregates_def by blast
      moreover have "{origin f, destination f} \<noteq> ?u e" using none[OF 1] by blast
      ultimately show ?thesis by simp
    next
      case 2
      then show ?thesis using new vf nofl by (simp add: valid_flight_def)
    qed
   qed
  next
    have "distinct (map ?u m)" using inv unfolding aggregates_def by simp
    moreover have "{origin f, destination f} \<notin> ?u ` set m" using none by force
    ultimately show "distinct (map ?u (m @ [(origin f @ ''-'' @ destination f, new)]))"
      using new by simp
  next
   show "\<forall>g \<in> set (fs @ [f]). valid_flight valid g \<longrightarrow>
      (\<exists>e \<in> set (m @ [(origin f @ ''-'' @ destination f, new)]). {origin g, destination g} = ?u e)"
   proof (intro ballI impI)
    fix g assume g: "g \<in> set (fs @ [f])" "valid_flight valid g"
    show "\<exists>e \<in> set (m @ [(origin f @ ''-'' @ destination f, new)]). {origin g, destination g} = ?u e"
    proof (cases "g \<in> set fs")
      case True
      with inv g(2) show ?thesis unfolding aggregates_def by auto
    next
      case False
      with g(1) have "g = f" by simp
      then show ?thesis using new by simp
    qed
   qed
  qed
qed


lemma aggregates_lookup_step:
  fixes m :: "(string \<times> 'a Route_scheme) list"
  assumes inv: "aggregates valid m fs"
    and nh: "\<And>c. valid c \<Longrightarrow> CHR ''-'' \<notin> set c"
    and bump: "\<And>r. from' (bump r) = from' r \<and> to' (bump r) = to' r \<and>
                     count (bump r) = count r + 1 \<and> flights (bump r) = flights r @ [f]"
    and new: "from' new = origin f \<and> to' new = destination f \<and> count new = 1 \<and> flights new = [f]"
  shows "aggregates valid
           (if valid_flight valid f
            then (case map_of m (origin f @ ''-'' @ destination f) of
                    Some existing \<Rightarrow> update_entry (origin f @ ''-'' @ destination f) bump m
                  | None \<Rightarrow>
                      (case map_of m (destination f @ ''-'' @ origin f) of
                         Some existing \<Rightarrow> update_entry (destination f @ ''-'' @ origin f) bump m
                       | None \<Rightarrow> m @ [(origin f @ ''-'' @ destination f, new)]))
            else m)
           (fs @ [f])"
proof (cases "valid_flight valid f")
  case False
  with inv show ?thesis by (simp add: aggregates_skip)
next
  case vf: True
  then have vo: "valid (origin f)" and vd: "valid (destination f)"
    by (simp_all add: valid_flight_def)
  have entry: "from' (snd e) = x \<and> to' (snd e) = y"
    if "e \<in> set m" "fst e = x @ ''-'' @ y" "valid x" for e x y
  proof -
    from inv that(1) have "fst e = from' (snd e) @ ''-'' @ to' (snd e)" "valid (from' (snd e))"
      unfolding aggregates_def by blast+
    with that(2,3) show ?thesis
      using key_inj[of "from' (snd e)" x "to' (snd e)" y] nh by auto
  qed
  have key: "fst e = from' (snd e) @ ''-'' @ to' (snd e)" if "e \<in> set m" for e
    using inv that unfolding aggregates_def by blast
  show ?thesis
  proof (cases "map_of m (origin f @ ''-'' @ destination f)")
    case (Some r)
    then have e: "(origin f @ ''-'' @ destination f, r) \<in> set m" by (rule map_of_SomeD)
    from entry[OF e _ vo] have "{from' r, to' r} = {origin f, destination f}" by simp
    with aggregates_bump[OF inv nh vf e _ bump] vf Some show ?thesis by simp
  next
    case n1: None
    show ?thesis
    proof (cases "map_of m (destination f @ ''-'' @ origin f)")
      case (Some r)
      then have e: "(destination f @ ''-'' @ origin f, r) \<in> set m" by (rule map_of_SomeD)
      from entry[OF e _ vd] have "{from' r, to' r} = {origin f, destination f}" by auto
      with aggregates_bump[OF inv nh vf e _ bump] vf Some n1 show ?thesis by simp
    next
      case n2: None
      have none: "{from' (snd e), to' (snd e)} \<noteq> {origin f, destination f}" if "e \<in> set m" for e
      proof
        assume "{from' (snd e), to' (snd e)} = {origin f, destination f}"
        then consider "from' (snd e) = origin f \<and> to' (snd e) = destination f"
          | "from' (snd e) = destination f \<and> to' (snd e) = origin f"
          by (auto simp: doubleton_eq_iff)
        then show False
        proof cases
          case 1
          with key[OF that] have "fst e = origin f @ ''-'' @ destination f" by simp
          with that have "origin f @ ''-'' @ destination f \<in> fst ` set m"
            by (rule_tac image_eqI[of _ _ e]) simp_all
          with n1 show False by (simp add: map_of_eq_None_iff)
        next
          case 2
          with key[OF that] have "fst e = destination f @ ''-'' @ origin f" by simp
          with that have "destination f @ ''-'' @ origin f \<in> fst ` set m"
            by (rule_tac image_eqI[of _ _ e]) simp_all
          with n2 show False by (simp add: map_of_eq_None_iff)
        qed
      qed
      from aggregates_append[OF inv vf none new] vf n1 n2 show ?thesis by simp
    qed
  qed
qed

lemma filter_distinct_key:
  "distinct (map u xs) \<Longrightarrow> x \<in> set xs \<Longrightarrow> filter (\<lambda>y. u y = u x) xs = [x]"
proof (induction xs)
  case Nil
  then show ?case by simp
next
  case (Cons y ys)
  show ?case
  proof (cases "x = y")
    case True
    have "filter (\<lambda>z. u z = u y) ys = []"
    proof -
      have "u y \<notin> u ` set ys" using Cons.prems(1) by simp
      then have "u z \<noteq> u y" if "z \<in> set ys" for z using that by (auto simp: image_iff)
      then show ?thesis by (simp add: filter_empty_conv)
    qed
    with True show ?thesis by simp
  next
    case False
    with Cons.prems have "x \<in> set ys" "u y \<noteq> u x" by auto
    with Cons show ?thesis by simp
  qed
qed

text \<open>What the invariant says of the routes of one unordered pair.\<close>

lemma aggregates_pair:
  fixes m :: "(string \<times> 'a Route_scheme) list"
  assumes inv: "aggregates valid m fs" and va: "valid a" and vb: "valid b"
  shows "map (\<lambda>e. (count (snd e), flights (snd e)))
             (filter (\<lambda>e. {from' (snd e), to' (snd e)} = {a, b}) m) =
         (let between = filter (\<lambda>f. {origin f, destination f} = {a, b}) fs
          in if between = [] then [] else [(length between, between)])"
proof -
  let ?u = "\<lambda>e. {from' (snd e), to' (snd e)}"
  let ?between = "filter (\<lambda>f. {origin f, destination f} = {a, b}) fs"
  have vf: "valid_flight valid f" if "{origin f, destination f} = {a, b}" for f
    using that va vb by (auto simp: valid_flight_def doubleton_eq_iff)
  have fl: "filter (\<lambda>f. valid_flight valid f \<and> {origin f, destination f} = {a, b}) fs = ?between"
    by (rule filter_cong) (auto dest: vf)
  have du: "distinct (map ?u m)" using inv unfolding aggregates_def by simp
  show ?thesis
  proof (cases "\<exists>e \<in> set m. ?u e = {a, b}")
    case True
    then obtain e where e: "e \<in> set m" "?u e = {a, b}" by blast
    from filter_distinct_key[OF du e(1)] e(2)
    have "filter (\<lambda>y. ?u y = {a, b}) m = [e]" by simp
    moreover from inv e(1)
    have "flights (snd e) =
            filter (\<lambda>f. valid_flight valid f \<and> {origin f, destination f} = ?u e) fs \<and>
          count (snd e) =
            length (filter (\<lambda>f. valid_flight valid f \<and> {origin f, destination f} = ?u e) fs) \<and>
          filter (\<lambda>f. valid_flight valid f \<and> {origin f, destination f} = ?u e) fs \<noteq> []"
      unfolding aggregates_def by blast
    then have "flights (snd e) = ?between" "count (snd e) = length ?between" "?between \<noteq> []"
      unfolding e(2) fl by blast+
    ultimately show ?thesis by (simp add: Let_def)
  next
    case False
    then have "filter (\<lambda>y. ?u y = {a, b}) m = []" by (auto simp: filter_empty_conv)
    moreover have "?between = []"
    proof (rule ccontr)
      assume "?between \<noteq> []"
      then obtain f where "f \<in> set fs" "{origin f, destination f} = {a, b}"
        by (auto simp: filter_empty_conv)
      moreover from inv have "\<forall>f \<in> set fs. valid_flight valid f \<longrightarrow>
           (\<exists>e \<in> set m. {origin f, destination f} = ?u e)"
        unfolding aggregates_def by blast
      ultimately obtain e where "e \<in> set m" "{origin f, destination f} = ?u e"
        using vf[of f] by blast
      with False \<open>{origin f, destination f} = {a, b}\<close> show False by simp
    qed
    ultimately show ?thesis by (simp add: Let_def)
  qed
qed

subsection \<open>Routes of the current map\<close>

lemma table_no_hyphen:
  "\<forall>c \<in> set (map fst AIRPORT_COORDINATES @ Object_prototype_names). CHR ''-'' \<notin> set c"
  by code_simp

lemma valid_no_hyphen:
  assumes "AIRPORT_COORDINATES_get c \<noteq> None"
  shows "CHR ''-'' \<notin> set c"
proof -
  have "c \<in> set (map fst AIRPORT_COORDINATES @ Object_prototype_names)"
  proof (cases "map_of AIRPORT_COORDINATES c")
    case None
    with assms show ?thesis by (simp add: AIRPORT_COORDINATES_get_def split: if_splits)
  next
    case (Some a)
    then have "(c, a) \<in> set AIRPORT_COORDINATES" by (rule map_of_SomeD)
    then show ?thesis by force
  qed
  with table_no_hyphen show ?thesis by blast
qed

lemma routes_step_lookup:
  "routes_step m f =
     (if valid_flight (\<lambda>c. AIRPORT_COORDINATES_get c \<noteq> None) f
      then (case map_of m (origin f @ ''-'' @ destination f) of
              Some existing \<Rightarrow>
                update_entry (origin f @ ''-'' @ destination f)
                  (\<lambda>r. r\<lparr>count := count r + 1, flights := flights r @ [f]\<rparr>) m
            | None \<Rightarrow>
                (case map_of m (destination f @ ''-'' @ origin f) of
                   Some existing \<Rightarrow>
                     update_entry (destination f @ ''-'' @ origin f)
                       (\<lambda>r. r\<lparr>count := count r + 1, flights := flights r @ [f]\<rparr>) m
                 | None \<Rightarrow>
                     m @ [(origin f @ ''-'' @ destination f,
                           \<lparr>key' = origin f @ ''-'' @ destination f, from' = origin f,
                            to' = destination f, count = 1, flights = [f],
                            coordinates =
                              createCurvedPath_js
                                (position (the (AIRPORT_COORDINATES_get (origin f))))
                                (position (the (AIRPORT_COORDINATES_get (destination f)))),
                            opacity = 0.4\<rparr>)]))
      else m)"
  by (auto simp: routes_step_def valid_flight_def Let_def split: option.splits)

lemma routeMap_aggregates:
  "aggregates (\<lambda>c. AIRPORT_COORDINATES_get c \<noteq> None) (foldl routes_step [] fs) fs"
proof (induction fs rule: rev_induct)
  case Nil
  show ?case by (simp add: aggregates_def)
next
  case (snoc f fs)
  define M where "M = foldl routes_step [] fs"
  have inv: "aggregates (\<lambda>c. AIRPORT_COORDINATES_get c \<noteq> None) M fs"
    using snoc.IH by (simp add: M_def)
  have "aggregates (\<lambda>c. AIRPORT_COORDINATES_get c \<noteq> None) (routes_step M f) (fs @ [f])"
    by (subst routes_step_lookup, rule aggregates_lookup_step[OF inv])
       (simp_all add: valid_no_hyphen)
  then show ?case by (simp add: M_def)
qed

lemma routes_pair:
  assumes "a \<in> fst ` set AIRPORT_COORDINATES" and "b \<in> fst ` set AIRPORT_COORDINATES"
  shows "map (\<lambda>r. (count r, flights r))
             (filter (\<lambda>r. (from' r = a \<and> to' r = b) \<or> (from' r = b \<and> to' r = a)) (routes fs)) =
         (let between = filter (\<lambda>f. (origin f = a \<and> destination f = b) \<or>
                                     (origin f = b \<and> destination f = a)) fs
          in if between = [] then [] else [(length between, between)])"
proof -
  let ?valid = "\<lambda>c. AIRPORT_COORDINATES_get c \<noteq> None"
  let ?m = "foldl routes_step [] fs"
  have v: "?valid a" "?valid b"
    using assms by (auto simp: AIRPORT_COORDINATES_get_def map_of_eq_None_iff split: option.splits)
  have pair: "(x = a \<and> y = b) \<or> (x = b \<and> y = a) \<longleftrightarrow> {x, y} = {a, b}" for x y :: string
    by (auto simp: doubleton_eq_iff)
  have "map (\<lambda>r. (count r, flights r))
             (filter (\<lambda>r. {from' r, to' r} = {a, b}) (routes fs)) =
        map (\<lambda>e. (count (snd e), flights (snd e)))
             (filter (\<lambda>e. {from' (snd e), to' (snd e)} = {a, b}) ?m)"
    by (simp add: routes_def Let_def filter_map comp_def)
  also note aggregates_pair[OF routeMap_aggregates v]
  finally show ?thesis unfolding pair .
qed

lemma foldr_max_ge: "(1::nat) \<le> foldr max xs 1"
  by (induction xs) auto

lemma routes_opacity:
  assumes "r \<in> set (routes fs)"
  shows "opacity r =
           min (0.3 + (real (count r) /
                       real (foldr max (map count (map snd (foldl routes_step [] fs))) 1)) * 0.7) 1"
  using assms by (auto simp: routes_def Let_def)

lemma routes_opacity_bounds:
  "(\<forall>r \<in> set (routes fs). 0.3 \<le> opacity r \<and> opacity r \<le> 1.0)
   \<and> (\<forall>r1 \<in> set (routes fs). \<forall>r2 \<in> set (routes fs).
         count r1 \<le> count r2 \<longrightarrow> opacity r1 \<le> opacity r2)"
proof -
  define M where "M = real (foldr max (map count (map snd (foldl routes_step [] fs))) 1)"
  have M: "0 < M"
    using foldr_max_ge[of "map count (map snd (foldl routes_step [] fs))"] by (simp add: M_def)
  have op: "opacity r = min (0.3 + (real (count r) / M) * 0.7) 1" if "r \<in> set (routes fs)" for r
    using routes_opacity[OF that] by (simp add: M_def)
  have 1: "0.3 \<le> opacity r \<and> opacity r \<le> 1.0" if "r \<in> set (routes fs)" for r
  proof -
    have "0 \<le> real (count r) / M" using M by simp
    then show ?thesis unfolding op[OF that] by simp
  qed
  have 2: "opacity r1 \<le> opacity r2"
    if "r1 \<in> set (routes fs)" "r2 \<in> set (routes fs)" "count r1 \<le> count r2" for r1 r2
  proof -
    have "real (count r1) / M \<le> real (count r2) / M"
      using M that(3) by (simp add: divide_right_mono)
    then show ?thesis unfolding op[OF that(1)] op[OF that(2)] by simp
  qed
  show ?thesis using 1 2 by blast
qed



subsection \<open>Routes of the older revision\<close>

lemma table_v2_no_hyphen:
  "\<forall>c \<in> set (map fst AIRPORT_COORDINATES_v2 @ Object_prototype_names). CHR ''-'' \<notin> set c"
  by code_simp

lemma valid_v2_no_hyphen:
  assumes "AIRPORT_COORDINATES_v2_get c \<noteq> None"
  shows "CHR ''-'' \<notin> set c"
proof -
  have "c \<in> set (map fst AIRPORT_COORDINATES_v2 @ Object_prototype_names)"
  proof (cases "map_of AIRPORT_COORDINATES_v2 c")
    case None
    with assms show ?thesis by (simp add: AIRPORT_COORDINATES_v2_get_def split: if_splits)
  next
    case (Some a)
    then have "(c, a) \<in> set AIRPORT_COORDINATES_v2" by (rule map_of_SomeD)
    then show ?thesis by force
  qed
  with table_v2_no_hyphen show ?thesis by blast
qed

lemma routes_v2_step_lookup:
  "routes_v2_step m f =
     (if valid_flight (\<lambda>c. AIRPORT_COORDINATES_v2_get c \<noteq> None) f
      then (case map_of m (origin f @ ''-'' @ destination f) of
              Some existing \<Rightarrow>
                update_entry (origin f @ ''-'' @ destination f)
                  (\<lambda>r. r\<lparr>count := count r + 1, flights := flights r @ [f],
                          thickness := min (max (real (count r + 1)) 1) 10,
                          opacity := min (0.3 + real (count r + 1) * 0.1) 0.9\<rparr>) m
            | None \<Rightarrow>
                (case map_of m (destination f @ ''-'' @ origin f) of
                   Some existing \<Rightarrow>
                     update_entry (destination f @ ''-'' @ origin f)
                       (\<lambda>r. r\<lparr>count := count r + 1, flights := flights r @ [f],
                               thickness := min (max (real (count r + 1)) 1) 10,
                               opacity := min (0.3 + real (count r + 1) * 0.1) 0.9\<rparr>) m
                 | None \<Rightarrow>
                     m @ [(origin f @ ''-'' @ destination f,
                           \<lparr>key' = origin f @ ''-'' @ destination f, from' = origin f,
                            to' = destination f, count = 1, flights = [f],
                            coordinates =
                              [position (the (AIRPORT_COORDINATES_v2_get (origin f))),
                               position (the (AIRPORT_COORDINATES_v2_get (destination f)))],
                            opacity = 0.4, thickness = 1\<rparr>)]))
      else m)"
  by (auto simp: routes_v2_step_def valid_flight_def Let_def split: option.splits)

lemma routeMap_v2_aggregates:
  "aggregates (\<lambda>c. AIRPORT_COORDINATES_v2_get c \<noteq> None) (foldl routes_v2_step [] fs) fs"
proof (induction fs rule: rev_induct)
  case Nil
  show ?case by (simp add: aggregates_def)
next
  case (snoc f fs)
  define M where "M = foldl routes_v2_step [] fs"
  have inv: "aggregates (\<lambda>c. AIRPORT_COORDINATES_v2_get c \<noteq> None) M fs"
    using snoc.IH by (simp add: M_def)
  have "aggregates (\<lambda>c. AIRPORT_COORDINATES_v2_get c \<noteq> None) (routes_v2_step M f) (fs @ [f])"
    by (subst routes_v2_step_lookup, rule aggregates_lookup_step[OF inv])
       (simp_all add: valid_v2_no_hyphen)
  then show ?case by (simp add: M_def)
qed

lemma routes_v2_pair:
  assumes "a \<in> fst ` set AIRPORT_COORDINATES_v2" and "b \<in> fst ` set AIRPORT_COORDINATES_v2"
  shows "map (\<lambda>r. (count r, flights r))
             (filter (\<lambda>r. (from' r = a \<and> to' r = b) \<or> (from' r = b \<and> to' r = a)) (routes_v2 fs)) =
         (let between = filter (\<lambda>f. (origin f = a \<and> destination f = b) \<or>
                                     (origin f = b \<and> destination f = a)) fs
          in if between = [] then [] else [(length between, between)])"
proof -
  let ?valid = "\<lambda>c. AIRPORT_COORDINATES_v2_get c \<noteq> None"
  let ?m = "foldl routes_v2_step [] fs"
  have v: "?valid a" "?valid b"
    using assms by (auto simp: AIRPORT_COORDINATES_v2_get_def map_of_eq_None_iff split: option.splits)
  have pair: "(x = a \<and> y = b) \<or> (x = b \<and> y = a) \<longleftrightarrow> {x, y} = {a, b}" for x y :: string
    by (auto simp: doubleton_eq_iff)
  have "map (\<lambda>r. (count r, flights r))
             (filter (\<lambda>r. {from' r, to' r} = {a, b}) (routes_v2 fs)) =
        map (\<lambda>e. (count (snd e), flights (snd e)))
             (filter (\<lambda>e. {from' (snd e), to' (snd e)} = {a, b}) ?m)"
    by (simp add: routes_v2_def Let_def filter_map comp_def)
  also note aggregates_pair[OF routeMap_v2_aggregates v]
  finally show ?thesis unfolding pair .
qed

text \<open>The opacity of the older revision is a function of the count.\<close>

lemma update_entry_set:
  "e \<in> set (update_entry k g m) \<Longrightarrow> e \<in> set m \<or> (\<exists>v. (k, v) \<in> set m \<and> e = (k, g v))"
  by (induction m) (auto split: if_splits)

lemma routes_v2_step_opacity:
  assumes inv: "\<forall>e \<in> set m. 1 \<le> count (snd e) \<and>
                  opacity (snd e) = (if count (snd e) = 1 then 0.4
                                     else min (0.3 + real (count (snd e)) * 0.1) 0.9)"
    and e: "e \<in> set (routes_v2_step m f)"
  shows "1 \<le> count (snd e) \<and>
         opacity (snd e) = (if count (snd e) = 1 then 0.4
                            else min (0.3 + real (count (snd e)) * 0.1) 0.9)"
proof -
  let ?g = "\<lambda>r::Route_v2. r\<lparr>count := count r + 1, flights := flights r @ [f],
                          thickness := min (max (real (count r + 1)) 1) 10,
                          opacity := min (0.3 + real (count r + 1) * 0.1) 0.9\<rparr>"
  have bumped: "1 \<le> count (snd (k, ?g v)) \<and>
         opacity (snd (k, ?g v)) = (if count (snd (k, ?g v)) = 1 then 0.4
                            else min (0.3 + real (count (snd (k, ?g v))) * 0.1) 0.9)"
    if "(k, v) \<in> set m" for k v
    using inv that by force
  from e consider "e \<in> set m" | k v where "(k, v) \<in> set m" "e = (k, ?g v)"
    | r where "e = (origin f @ ''-'' @ destination f, r)" "count r = 1" "opacity r = 0.4"
    unfolding routes_v2_step_lookup
    by (auto split: if_splits option.splits dest!: update_entry_set)
  then show ?thesis
  proof cases
    case 1
    with inv show ?thesis by blast
  next
    case 2
    with bumped show ?thesis by blast
  next
    case 3
    then show ?thesis by simp
  qed
qed

lemma routes_v2_opacity:
  "\<forall>e \<in> set (foldl routes_v2_step [] fs). 1 \<le> count (snd e) \<and>
         opacity (snd e) = (if count (snd e) = 1 then 0.4
                            else min (0.3 + real (count (snd e)) * 0.1) 0.9)"
proof (induction fs rule: rev_induct)
  case Nil
  show ?case by simp
next
  case (snoc f fs)
  show ?case using routes_v2_step_opacity[OF snoc.IH] by simp
qed

lemma opacity_v2_mono:
  fixes c1 c2 :: nat
  assumes "1 \<le> c1" "c1 \<le> c2"
  shows "(if c1 = 1 then 0.4 else min (0.3 + real c1 * 0.1) 0.9) \<le>
         (if c2 = 1 then 0.4 else min (0.3 + real c2 * 0.1) (0.9::real))"
proof -
  have "real c1 \<le> real c2" using assms by simp
  moreover have "2 \<le> real c2" if "c2 \<noteq> 1" using that assms by simp
  ultimately show ?thesis using assms by (auto simp: min_def)
qed

lemma routes_v2_opacity_bounds:
  "(\<forall>r \<in> set (routes_v2 fs). 0.3 \<le> opacity r \<and> opacity r \<le> 1.0)
   \<and> (\<forall>r1 \<in> set (routes_v2 fs). \<forall>r2 \<in> set (routes_v2 fs).
         count r1 \<le> count r2 \<longrightarrow> opacity r1 \<le> opacity r2)"
proof -
  have op: "1 \<le> count r \<and>
         opacity r = (if count r = 1 then 0.4 else min (0.3 + real (count r) * 0.1) 0.9)"
    if "r \<in> set (routes_v2 fs)" for r
    using that routes_v2_opacity[of fs] by (auto simp: routes_v2_def)
  have 1: "0.3 \<le> opacity r \<and> opacity r \<le> 1.0" if "r \<in> set (routes_v2 fs)" for r
    using op[OF that] by (auto simp: min_def)
  have 2: "opacity r1 \<le> opacity r2"
    if "r1 \<in> set (routes_v2 fs)" "r2 \<in> set (routes_v2 fs)" "count r1 \<le> count r2" for r1 r2
    using op[OF that(1)] op[OF that(2)] opacity_v2_mono[OF _ that(3)] by simp
  show ?thesis using 1 2 by blast
qed


subsection \<open>The aggregation of the sample flights\<close>

lemma lookup_samples:
  "AIRPORT_COORDINATES_get ''SIN'' =
     Some (airport ''SIN'' 1.3644 103.9915 ''Singapore Changi Airport'' ''Singapore'' ''Singapore'')"
  "AIRPORT_COORDINATES_get ''CGK'' =
     Some (airport ''CGK'' (-6.1256) 106.6559 ''Soekarno-Hatta International Airport'' ''Jakarta''
             ''Indonesia'')"
  "AIRPORT_COORDINATES_get ''HKG'' =
     Some (airport ''HKG'' 22.308 113.9185 ''Hong Kong International Airport'' ''Hong Kong''
             ''Hong Kong'')"
  "AIRPORT_COORDINATES_get ''XXX'' = None"
  by code_simp+

lemma flight_fields: "origin (flight a b) = a" "destination (flight a b) = b"
  by (simp_all add: flight_def)

lemma sample_routeMap:
  "map (\<lambda>(k, r). (k, from' r, to' r, count r, flights r)) (foldl routes_step [] sample_flights) =
   [(''SIN-CGK'', ''SIN'', ''CGK'', 2, [flight ''SIN'' ''CGK'', flight ''CGK'' ''SIN'']),
    (''SIN-HKG'', ''SIN'', ''HKG'', 1, [flight ''SIN'' ''HKG''])]"
  by (simp add: sample_flights_def routes_step_def flight_fields lookup_samples Let_def)

lemma lookup_v2_samples:
  "AIRPORT_COORDINATES_v2_get ''SIN'' =
     Some (airport ''SIN'' 1.3644 103.9915 ''Singapore Changi Airport'' ''Singapore'' ''Singapore'')"
  "AIRPORT_COORDINATES_v2_get ''CGK'' =
     Some (airport ''CGK'' (-6.1256) 106.6559 ''Soekarno-Hatta International Airport'' ''Jakarta''
             ''Indonesia'')"
  "AIRPORT_COORDINATES_v2_get ''HKG'' =
     Some (airport ''HKG'' 22.308 113.9185 ''Hong Kong International Airport'' ''Hong Kong''
             ''Hong Kong'')"
  "AIRPORT_COORDINATES_v2_get ''XXX'' = None"
  by code_simp+

lemma sample_members:
  "''SIN'' \<in> fst ` set AIRPORT_COORDINATES" "''CGK'' \<in> fst ` set AIRPORT_COORDINATES"
  "''SIN'' \<in> fst ` set AIRPORT_COORDINATES_v2" "''CGK'' \<in> fst ` set AIRPORT_COORDINATES_v2"
  by code_simp+

lemma sample_between:
  "filter (\<lambda>f. (origin f = ''SIN'' \<and> destination f = ''CGK'') \<or>
                (origin f = ''CGK'' \<and> destination f = ''SIN'')) sample_flights =
   [flight ''SIN'' ''CGK'', flight ''CGK'' ''SIN'']"
  by (simp add: sample_flights_def flight_fields)

lemma sample_routes:
  "map (\<lambda>r. (count r, opacity r)) (routes sample_flights) = [(2, 1), (1, 0.65)]"
  by (simp add: routes_def sample_flights_def routes_step_def flight_fields lookup_samples Let_def)

lemma sample_routes_v2:
  "map (\<lambda>r. (count r, opacity r)) (routes_v2 sample_flights) = [(2, 0.5), (1, 0.4)]"
  by (simp add: routes_v2_def sample_flights_def routes_v2_step_def flight_fields
      lookup_v2_samples Let_def)

subsection \<open>One route per pair of airports\<close>

text \<open>
  Claim C1. For every list of flights and every two codes \<open>a\<close> and \<open>b\<close> of the airport
  table, the routes hold at most one route between the two airports, in either direction:
  there is one exactly when some flight goes from \<open>a\<close> to \<open>b\<close> or from \<open>b\<close> to \<open>a\<close>; it
  holds all these flights, in the order read, and its count is their number. This is so in
  the current map and in its older revision, each with its own table.
\<close>

theorem one_route_per_airport_pair:
  "(a \<in> fst ` set AIRPORT_COORDINATES \<and> b \<in> fst ` set AIRPORT_COORDINATES \<longrightarrow>
      map (\<lambda>r. (count r, flights r))
          (filter (\<lambda>r. (from' r = a \<and> to' r = b) \<or> (from' r = b \<and> to' r = a)) (routes fs)) =
      (let between = filter (\<lambda>f. (origin f = a \<and> destination f = b) \<or>
                                  (origin f = b \<and> destination f = a)) fs
       in if between = [] then [] else [(length between, between)]))
   \<and> (a \<in> fst ` set AIRPORT_COORDINATES_v2 \<and> b \<in> fst ` set AIRPORT_COORDINATES_v2 \<longrightarrow>
      map (\<lambda>r. (count r, flights r))
          (filter (\<lambda>r. (from' r = a \<and> to' r = b) \<or> (from' r = b \<and> to' r = a)) (routes_v2 fs)) =
      (let between = filter (\<lambda>f. (origin f = a \<and> destination f = b) \<or>
                                  (origin f = b \<and> destination f = a)) fs
       in if between = [] then [] else [(length between, between)]))"
proof (intro conjI impI)
  assume "a \<in> fst ` set AIRPORT_COORDINATES \<and> b \<in> fst ` set AIRPORT_COORDINATES"
  then show "map (\<lambda>r. (count r, flights r))
          (filter (\<lambda>r. (from' r = a \<and> to' r = b) \<or> (from' r = b \<and> to' r = a)) (routes fs)) =
      (let between = filter (\<lambda>f. (origin f = a \<and> destination f = b) \<or>
                                  (origin f = b \<and> destination f = a)) fs
       in if between = [] then [] else [(length between, between)])"
    by (elim conjE) (rule routes_pair)
next
  assume "a \<in> fst ` set AIRPORT_COORDINATES_v2 \<and> b \<in> fst ` set AIRPORT_COORDINATES_v2"
  then show "map (\<lambda>r. (count r, flights r))
          (filter (\<lambda>r. (from' r = a \<and> to' r = b) \<or> (from' r = b \<and> to' r = a)) (routes_v2 fs)) =
      (let between = filter (\<lambda>f. (origin f = a \<and> destination f = b) \<or>
                                  (origin f = b \<and> destination f = a)) fs
       in if between = [] then [] else [(length between, between)])"
    by (elim conjE) (rule routes_v2_pair)
qed

theorem one_route_per_airport_pair_witness:
  "''SIN'' \<in> fst ` set AIRPORT_COORDINATES \<and> ''CGK'' \<in> fst ` set AIRPORT_COORDINATES
   \<and> ''SIN'' \<in> fst ` set AIRPORT_COORDINATES_v2 \<and> ''CGK'' \<in> fst ` set AIRPORT_COORDINATES_v2
   \<and> map (\<lambda>r. (count r, flights r))
          (filter (\<lambda>r. (from' r = ''SIN'' \<and> to' r = ''CGK'') \<or> (from' r = ''CGK'' \<and> to' r = ''SIN''))
                  (routes sample_flights)) =
      [(2, [flight ''SIN'' ''CGK'', flight ''CGK'' ''SIN''])]
   \<and> map (\<lambda>r. (count r, flights r))
          (filter (\<lambda>r. (from' r = ''SIN'' \<and> to' r = ''CGK'') \<or> (from' r = ''CGK'' \<and> to' r = ''SIN''))
                  (routes_v2 sample_flights)) =
      [(2, [flight ''SIN'' ''CGK'', flight ''CGK'' ''SIN''])]"
proof -
  note t = one_route_per_airport_pair[of "''SIN''" "''CGK''" sample_flights]
  have 1: "map (\<lambda>r. (count r, flights r))
          (filter (\<lambda>r. (from' r = ''SIN'' \<and> to' r = ''CGK'') \<or> (from' r = ''CGK'' \<and> to' r = ''SIN''))
                  (routes sample_flights)) =
      [(2, [flight ''SIN'' ''CGK'', flight ''CGK'' ''SIN''])]"
    using t[THEN conjunct1, rule_format, OF conjI[OF sample_members(1) sample_members(2)]]
    unfolding sample_between by simp
  have 2: "map (\<lambda>r. (count r, flights r))
          (filter (\<lambda>r. (from' r = ''SIN'' \<and> to' r = ''CGK'') \<or> (from' r = ''CGK'' \<and> to' r = ''SIN''))
                  (routes_v2 sample_flights)) =
      [(2, [flight ''SIN'' ''CGK'', flight ''CGK'' ''SIN''])]"
    using t[THEN conjunct2, rule_format, OF conjI[OF sample_members(3) sample_members(4)]]
    unfolding sample_between by simp
  show ?thesis
    by (intro conjI, rule sample_members(1), rule sample_members(2), rule sample_members(3),
        rule sample_members(4), rule 1, rule 2)
qed

subsection \<open>Opacity\<close>

text \<open>
  Claim C2. For every list of flights, the opacity of every route lies between 0.3 and 1,
  and of two routes of the same aggregation the one with the smaller count has the smaller
  or the same opacity; in the current map and in its older revision.
\<close>

theorem route_opacity_bounded_monotone:
  "(\<forall>r \<in> set (routes fs). 0.3 \<le> opacity r \<and> opacity r \<le> 1.0)
   \<and> (\<forall>r1 \<in> set (routes fs). \<forall>r2 \<in> set (routes fs).
         count r1 \<le> count r2 \<longrightarrow> opacity r1 \<le> opacity r2)
   \<and> (\<forall>r \<in> set (routes_v2 fs). 0.3 \<le> opacity r \<and> opacity r \<le> 1.0)
   \<and> (\<forall>r1 \<in> set (routes_v2 fs). \<forall>r2 \<in> set (routes_v2 fs).
         count r1 \<le> count r2 \<longrightarrow> opacity r1 \<le> opacity r2)"
  by (intro conjI, rule routes_opacity_bounds[THEN conjunct1], rule routes_opacity_bounds[THEN conjunct2],
      rule routes_v2_opacity_bounds[THEN conjunct1], rule routes_v2_opacity_bounds[THEN conjunct2])

theorem route_opacity_bounded_monotone_witness:
  "sample_flights \<noteq> []
   \<and> map (\<lambda>r. (count r, opacity r)) (routes sample_flights) = [(2, 1), (1, 0.65)]
   \<and> map (\<lambda>r. (count r, opacity r)) (routes_v2 sample_flights) = [(2, 0.5), (1, 0.4)]
   \<and> 0.3 \<le> opacity (routes sample_flights ! 1)
   \<and> opacity (routes sample_flights ! 1) \<le> opacity (routes sample_flights ! 0)
   \<and> opacity (routes sample_flights ! 0) \<le> 1
   \<and> 0.3 \<le> opacity (routes_v2 sample_flights ! 1)
   \<and> opacity (routes_v2 sample_flights ! 1) \<le> opacity (routes_v2 sample_flights ! 0)
   \<and> opacity (routes_v2 sample_flights ! 0) \<le> 1"
proof -
  note t = route_opacity_bounded_monotone[of sample_flights]
  have l: "length (routes sample_flights) = 2"
    using arg_cong[OF sample_routes, of length] by simp
  have m: "routes sample_flights ! 0 \<in> set (routes sample_flights)"
    "routes sample_flights ! 1 \<in> set (routes sample_flights)"
    using l by simp_all
  have c: "count (routes sample_flights ! 1) \<le> count (routes sample_flights ! 0)"
    using arg_cong[OF sample_routes, of "\<lambda>xs. fst (xs ! 0)"]
      arg_cong[OF sample_routes, of "\<lambda>xs. fst (xs ! 1)"] l by simp
  have l2: "length (routes_v2 sample_flights) = 2"
    using arg_cong[OF sample_routes_v2, of length] by simp
  have m2: "routes_v2 sample_flights ! 0 \<in> set (routes_v2 sample_flights)"
    "routes_v2 sample_flights ! 1 \<in> set (routes_v2 sample_flights)"
    using l2 by simp_all
  have c2: "count (routes_v2 sample_flights ! 1) \<le> count (routes_v2 sample_flights ! 0)"
    using arg_cong[OF sample_routes_v2, of "\<lambda>xs. fst (xs ! 0)"]
      arg_cong[OF sample_routes_v2, of "\<lambda>xs. fst (xs ! 1)"] l2 by simp
  have 0: "sample_flights \<noteq> []" by (simp add: sample_flights_def)
  have 1: "0.3 \<le> opacity (routes sample_flights ! 1)"
    using t[THEN conjunct1, rule_format, OF m(2)] by simp
  have 2: "opacity (routes sample_flights ! 1) \<le> opacity (routes sample_flights ! 0)"
    using t[THEN conjunct2, THEN conjunct1, rule_format, OF m(2) m(1) c] .
  have 3: "opacity (routes sample_flights ! 0) \<le> 1"
    using t[THEN conjunct1, rule_format, OF m(1)] by simp
  have 4: "0.3 \<le> opacity (routes_v2 sample_flights ! 1)"
    using t[THEN conjunct2, THEN conjunct2, THEN conjunct1, rule_format, OF m2(2)] by simp
  have 5: "opacity (routes_v2 sample_flights ! 1) \<le> opacity (routes_v2 sample_flights ! 0)"
    using t[THEN conjunct2, THEN conjunct2, THEN conjunct2, rule_format, OF m2(2) m2(1) c2] .
  have 6: "opacity (routes_v2 sample_flights ! 0) \<le> 1"
    using t[THEN conjunct2, THEN conjunct2, THEN conjunct1, rule_format, OF m2(1)] by simp
  show ?thesis
    by (intro conjI, rule 0, rule sample_routes, rule sample_routes_v2, rule 1, rule 2, rule 3,
        rule 4, rule 5, rule 6)
qed


subsection \<open>Curved paths\<close>

lemma segments_range: "3 \<le> segments d \<and> segments d \<le> 8"
  by (simp add: segments_def)

lemma length_createCurvedPath:
  "length (createCurvedPath from to) =
     (if curveDistance from to < 5 then 2 else nat (segments (curveDistance from to)) + 1)"
proof -
  have "length [0..segments d] = nat (segments d) + 1" for d
    using segments_range[of d] by (simp add: nat_add_distrib)
  then show ?thesis
    using segments_range[of "curveDistance from to"]
    by (simp add: createCurvedPath_def Let_def)
qed

text \<open>
  Claim C5, as amended. For endpoints whose distance is at least the threshold 5, the path
  has one point more than it has segments; the number of segments is the tenth of the
  distance, rounded down and kept between 3 and 8, so the path has between 4 and 9 points.
\<close>

theorem curved_path_sample_count:
  assumes "5 \<le> curveDistance from to"
  shows "length (createCurvedPath from to) = nat (segments (curveDistance from to)) + 1
       \<and> 4 \<le> length (createCurvedPath from to)
       \<and> length (createCurvedPath from to) \<le> 9
       \<and> segments (curveDistance from to) = max 3 (min \<lfloor>curveDistance from to / 10\<rfloor> 8)"
proof -
  have l: "length (createCurvedPath from to) = nat (segments (curveDistance from to)) + 1"
    using assms by (simp add: length_createCurvedPath)
  have "3 \<le> nat (segments (curveDistance from to))" "nat (segments (curveDistance from to)) \<le> 8"
    using segments_range[of "curveDistance from to"] by linarith+
  with l show ?thesis by (simp add: segments_def)
qed

lemma curveDistance_sample: "curveDistance (0, 0) (0, 80) = 80"
proof -
  have "adjustedLng2 0 80 = 80" by (simp add: adjustedLng2_def Let_def)
  moreover have "sqrt 6400 = (80::real)" by (rule real_sqrt_unique) simp_all
  ultimately show ?thesis by (simp add: curveDistance_def)
qed

text \<open>
  Claim C5 as stated gives the path between 3 and 8 points. Two points on the equator 80
  degrees apart are joined by a path of 8 segments, which has 9 points.
\<close>

theorem long_haul_path_has_nine_points:
  "5 \<le> curveDistance (0, 0) (0, 80) \<and> length (createCurvedPath (0, 0) (0, 80)) = 9"
  by (simp add: length_createCurvedPath curveDistance_sample segments_def)

theorem curved_path_sample_count_witness:
  "5 \<le> curveDistance (0, 0) (0, 80) \<and> length (createCurvedPath (0, 0) (0, 80)) = 9
   \<and> segments (curveDistance (0, 0) (0, 80)) = 8"
proof -
  have h: "5 \<le> curveDistance (0, 0) (0, 80)" by (simp add: curveDistance_sample)
  have s: "segments 80 = 8" by (simp add: segments_def)
  from curved_path_sample_count[OF h] show ?thesis
    by (simp add: curveDistance_sample s)
qed

lemma adjustedLng2_cases:
  "adjustedLng2 lng1 lng2 =
     (if 360 - \<bar>lng2 - lng1\<bar> < \<bar>lng2 - lng1\<bar>
      then (if lng2 > lng1 then lng2 - 360 else lng2 + 360) else lng2)"
  by (simp add: adjustedLng2_def Let_def)

lemma adjusted_delta:
  assumes "-180 \<le> lng1" "lng1 \<le> 180" "-180 \<le> lng2" "lng2 \<le> 180"
  shows "\<bar>adjustedLng2 lng1 lng2 - lng1\<bar> \<le> 180"
  using assms unfolding adjustedLng2_cases by (auto simp: abs_if split: if_splits)

lemma curveDistance_nonneg: "0 \<le> curveDistance from to"
  by (cases "from"; cases "to") (simp add: curveDistance_def)

lemma controlPoint_lng:
  "\<bar>snd (controlPoint (lat1, lng1) (lat2, lng2)) - lng1\<bar> \<le> \<bar>adjustedLng2 lng1 lng2 - lng1\<bar> / 2 + 6"
proof -
  define cf where "cf = min (curveDistance (lat1, lng1) (lat2, lng2) * 0.15) 20"
  have cf: "0 \<le> cf" "cf \<le> 20"
    using curveDistance_nonneg[of "(lat1, lng1)" "(lat2, lng2)"] by (simp_all add: cf_def)
  have "snd (controlPoint (lat1, lng1) (lat2, lng2)) =
        (lng1 + adjustedLng2 lng1 lng2) / 2 +
        (if \<bar>adjustedLng2 lng1 lng2 - lng1\<bar> \<le> \<bar>lat2 - lat1\<bar> then cf * 0.3 else 0)"
    by (simp add: controlPoint_def Let_def cf_def)
  then show ?thesis using cf by (auto simp: abs_if field_simps split: if_splits)
qed

lemma bezierPoint_ends:
  "segs \<noteq> 0 \<Longrightarrow> bezierPoint from control adjustedTo segs 0 = from"
  "segs \<noteq> 0 \<Longrightarrow> bezierPoint from control adjustedTo segs segs = adjustedTo"
  by (cases "from"; cases control; cases adjustedTo; simp add: bezierPoint_def Let_def)+

lemma upto_ends:
  assumes "i \<le> j"
  shows "[i..j] \<noteq> []" "hd [i..j] = i" "last [i..j] = j"
proof -
  have a: "[i..j] = i # [i + 1..j]" using assms by (rule upto_rec1)
  have b: "[i..j] = [i..j - 1] @ [j]" using assms by (rule upto_rec2)
  show "[i..j] \<noteq> []" by (subst a) simp
  show "hd [i..j] = i" by (subst a) simp
  show "last [i..j] = j" by (subst b) simp
qed

lemma hd_createCurvedPath: "hd (createCurvedPath from to) = from"
proof -
  have s: "0 \<le> segments d" "segments d \<noteq> 0" for d
    using segments_range[of d] by linarith+
  show ?thesis
    using upto_ends[OF s(1)] s(2)
    by (simp add: createCurvedPath_def Let_def hd_map bezierPoint_ends)
qed

lemma last_createCurvedPath:
  "last (createCurvedPath (lat1, lng1) (lat2, lng2)) = (lat2, adjustedLng2 lng1 lng2)"
proof -
  have s: "0 \<le> segments d" "segments d \<noteq> 0" for d
    using segments_range[of d] by linarith+
  show ?thesis
    using upto_ends[OF s(1)] s(2)
    by (simp add: createCurvedPath_def Let_def last_map bezierPoint_ends)
qed

text \<open>
  Claim C7. For longitudes between -180 and 180: when the westward distance is shorter
  than the eastward one, the longitude of the destination is moved by 360 degrees, to one
  side or the other, and it is left alone otherwise; the path ends at the destination with
  the longitude so adjusted; and the longitude of the control point is within 360 degrees
  of the longitude of the origin.
\<close>

theorem antimeridian_shift_and_control_point:
  assumes "-180 \<le> lng1" "lng1 \<le> 180" "-180 \<le> lng2" "lng2 \<le> 180"
  shows "(360 - \<bar>lng2 - lng1\<bar> < \<bar>lng2 - lng1\<bar> \<longrightarrow>
            adjustedLng2 lng1 lng2 = lng2 - 360 \<or> adjustedLng2 lng1 lng2 = lng2 + 360)
       \<and> (\<not> 360 - \<bar>lng2 - lng1\<bar> < \<bar>lng2 - lng1\<bar> \<longrightarrow> adjustedLng2 lng1 lng2 = lng2)
       \<and> last (createCurvedPath (lat1, lng1) (lat2, lng2)) = (lat2, adjustedLng2 lng1 lng2)
       \<and> \<bar>snd (controlPoint (lat1, lng1) (lat2, lng2)) - lng1\<bar> \<le> 360"
proof -
  have 1: "360 - \<bar>lng2 - lng1\<bar> < \<bar>lng2 - lng1\<bar> \<longrightarrow>
            adjustedLng2 lng1 lng2 = lng2 - 360 \<or> adjustedLng2 lng1 lng2 = lng2 + 360"
    unfolding adjustedLng2_cases by simp
  have 2: "\<not> 360 - \<bar>lng2 - lng1\<bar> < \<bar>lng2 - lng1\<bar> \<longrightarrow> adjustedLng2 lng1 lng2 = lng2"
    unfolding adjustedLng2_cases by simp
  have 3: "last (createCurvedPath (lat1, lng1) (lat2, lng2)) = (lat2, adjustedLng2 lng1 lng2)"
    by (rule last_createCurvedPath)
  have 4: "\<bar>snd (controlPoint (lat1, lng1) (lat2, lng2)) - lng1\<bar> \<le> 360"
  proof -
    have "a \<le> b / 2 + 6 \<Longrightarrow> b \<le> 180 \<Longrightarrow> a \<le> 360" for a b :: real by simp
    from this[OF controlPoint_lng[of lat1 lng1 lat2 lng2] adjusted_delta[OF assms]]
    show ?thesis .
  qed
  show ?thesis by (intro conjI, rule 1, rule 2, rule 3, rule 4)
qed

theorem antimeridian_shift_and_control_point_witness:
  "(-180::real) \<le> 100 \<and> (100::real) \<le> 180 \<and> (-180::real) \<le> -120 \<and> (-120::real) \<le> 180
   \<and> 360 - \<bar>-120 - 100\<bar> < \<bar>(-120::real) - 100\<bar>
   \<and> adjustedLng2 100 (-120) = -120 + 360
   \<and> last (createCurvedPath (1, 100) (37, -120)) = (37, 240)
   \<and> \<bar>snd (controlPoint (1, 100) (37, -120)) - 100\<bar> \<le> 360"
proof -
  have a: "adjustedLng2 100 (-120) = 240" by (simp add: adjustedLng2_def Let_def)
  from antimeridian_shift_and_control_point[of 100 "-120" 1 37] a show ?thesis by simp
qed

lemma short_path_is_straight:
  "createCurvedPath_js (Some 0, Some 0) (Some 0, Some 4) = [(Some 0, Some 0), (Some 0, Some 4)]"
proof -
  have a: "adjustedLng2 0 4 = 4" by (simp add: adjustedLng2_def Let_def)
  have "sqrt 16 = (4::real)" by (rule real_sqrt_unique) simp_all
  with a have "curveDistance (0, 0) (0, 4) = 4" by (simp add: curveDistance_def)
  with a show ?thesis by (simp add: createCurvedPath_js_def createCurvedPath_def Let_def)
qed


subsection \<open>Zoom levels and bounds\<close>

lemma routeEndpoints_hd_last:
  assumes "2 \<le> length (coordinates r)"
  shows "routeEndpoints r = [hd (coordinates r), last (coordinates r)]"
proof -
  have "coordinates r \<noteq> []" using assms by auto
  then show ?thesis
    using assms by (simp add: routeEndpoints_def hd_conv_nth last_conv_nth)
qed

lemma mapBounds_depends:
  assumes "rs = [] \<longleftrightarrow> rs' = []"
    and "concat (map routeEndpoints rs) = concat (map routeEndpoints rs')"
  shows "mapBounds rs = mapBounds rs'"
  using assms unfolding mapBounds_def by simp

lemma mapBounds_endpoints_only:
  assumes "list_all2 (\<lambda>r r'. 2 \<le> length (coordinates r) \<and> 2 \<le> length (coordinates r') \<and>
                            hd (coordinates r) = hd (coordinates r') \<and>
                            last (coordinates r) = last (coordinates r')) rs rs'"
  shows "mapBounds rs = mapBounds rs'"
proof (rule mapBounds_depends)
  from assms show "rs = [] \<longleftrightarrow> rs' = []" by (auto dest: list_all2_lengthD)
  from assms have "map routeEndpoints rs = map routeEndpoints rs'"
    by (induction rule: list_all2_induct) (simp_all add: routeEndpoints_hd_last)
  then show "concat (map routeEndpoints rs) = concat (map routeEndpoints rs')" by simp
qed

lemma Max_insert_max:
  assumes "finite S"
  shows "Max (insert (max a x) S) = Max (insert (a::real) (insert x S))"
proof (cases "S = {}")
  case True
  then show ?thesis by simp
next
  case False
  with assms show ?thesis by (simp add: max.assoc)
qed

lemma Min_insert_min:
  assumes "finite S"
  shows "Min (insert (min a x) S) = Min (insert (a::real) (insert x S))"
proof (cases "S = {}")
  case True
  then show ?thesis by simp
next
  case False
  with assms show ?thesis by (simp add: min.assoc)
qed

lemma num2_simps:
  "num2 f None b = None" "num2 f a None = None" "num2 f (Some x) (Some y) = Some (f x y)"
  by (simp_all add: num2_def split: option.splits)

lemma foldl_num2_max:
  "foldl (num2 max) a xs =
     (if a = None \<or> None \<in> set xs then None
      else Some (Max (insert (the a) (the ` set xs))))"
proof (induction xs arbitrary: a)
  case Nil
  show ?case by (cases a) simp_all
next
  case (Cons x xs)
  show ?case
  proof (cases a)
    case None
    then show ?thesis by (simp add: Cons.IH num2_simps)
  next
    case a: (Some a')
    show ?thesis
    proof (cases x)
      case None
      then show ?thesis by (simp add: Cons.IH num2_simps a)
    next
      case (Some x')
      have "Max (insert (max a' x') (the ` set xs)) = Max (insert a' (insert x' (the ` set xs)))"
        by (rule Max_insert_max) simp
      then show ?thesis by (simp add: Cons.IH num2_simps a Some)
    qed
  qed
qed

lemma foldl_num2_min:
  "foldl (num2 min) a xs =
     (if a = None \<or> None \<in> set xs then None
      else Some (Min (insert (the a) (the ` set xs))))"
proof (induction xs arbitrary: a)
  case Nil
  show ?case by (cases a) simp_all
next
  case (Cons x xs)
  show ?case
  proof (cases a)
    case None
    then show ?thesis by (simp add: Cons.IH num2_simps)
  next
    case a: (Some a')
    show ?thesis
    proof (cases x)
      case None
      then show ?thesis by (simp add: Cons.IH num2_simps a)
    next
      case (Some x')
      have "Min (insert (min a' x') (the ` set xs)) = Min (insert a' (insert x' (the ` set xs)))"
        by (rule Min_insert_min) simp
      then show ?thesis by (simp add: Cons.IH num2_simps a Some)
    qed
  qed
qed

lemma Math_max_set:
  "xs \<noteq> [] \<Longrightarrow> Math_max xs = (if None \<in> set xs then None else Some (Max (the ` set xs)))"
  by (cases xs) (auto simp: foldl_num2_max)

lemma Math_min_set:
  "xs \<noteq> [] \<Longrightarrow> Math_min xs = (if None \<in> set xs then None else Some (Min (the ` set xs)))"
  by (cases xs) (auto simp: foldl_num2_min)

lemma zoomLevels_all_coordinates:
  assumes e: "rs = [] \<longleftrightarrow> rs' = []"
    and s: "set (concat (map coordinates rs)) = set (concat (map coordinates rs'))"
  shows "zoomLevels rs = zoomLevels rs'"
proof -
  define cs where "cs = concat (map coordinates rs)"
  define cs' where "cs' = concat (map coordinates rs')"
  have s': "set cs = set cs'" using s by (simp add: cs_def cs'_def)
  then have n: "cs = [] \<longleftrightarrow> cs' = []" by (metis set_empty)
  have m: "Math_max (map f cs) = Math_max (map f cs')" "Math_min (map f cs) = Math_min (map f cs')"
    if "cs \<noteq> []" for f :: "coord \<Rightarrow> number"
  proof -
    have "set (map f cs) = set (map f cs')" using s' by simp
    moreover have "map f cs \<noteq> []" "map f cs' \<noteq> []" using that n by simp_all
    ultimately show "Math_max (map f cs) = Math_max (map f cs')"
      "Math_min (map f cs) = Math_min (map f cs')"
      by (simp_all add: Math_max_set Math_min_set)
  qed
  show ?thesis
  proof (cases "rs = []")
    case True
    with e show ?thesis by (simp add: zoomLevels_def)
  next
    case False
    with e have "rs' \<noteq> []" by simp
    show ?thesis
    proof (cases "cs = []")
      case True
      with n have "cs' = []" by simp
      with True False \<open>rs' \<noteq> []\<close> show ?thesis
        by (simp add: zoomLevels_def cs_def[symmetric] cs'_def[symmetric])
    next
      case ne: False
      with n have "cs' \<noteq> []" by simp
      with ne False \<open>rs' \<noteq> []\<close> m[OF ne, of fst] m[OF ne, of snd] show ?thesis
        by (simp add: zoomLevels_def cs_def[symmetric] cs'_def[symmetric] Let_def)
    qed
  qed
qed

lemma sample_zoom_changed:
  "zoomLevels [sample_route [(Some 0, Some 0), (Some 40, Some 2), (Some 0, Some 4)]] =
     \<lparr>minZoom = 3, maxZoom = 18, initialZoom = 4\<rparr>"
  by (simp add: zoomLevels_def sample_route_def num2_simps num_less_def Let_def)

lemma sample_zoom_low:
  "zoomLevels [sample_route [(Some 0, Some 0), (Some 1, Some 2), (Some 0, Some 4)]] =
     \<lparr>minZoom = 5, maxZoom = 18, initialZoom = 6\<rparr>"
  by (simp add: zoomLevels_def sample_route_def num2_simps num_less_def Let_def)

lemma sample_zoom_straight:
  "zoomLevels [sample_route [(Some 0, Some 0), (Some 0, Some 4)]] =
     \<lparr>minZoom = 5, maxZoom = 18, initialZoom = 6\<rparr>"
  by (simp add: zoomLevels_def sample_route_def num2_simps num_less_def Let_def)

lemma sample_bounds:
  "mapBounds [sample_route [(Some 0, Some 0), (Some 0, Some 4)]] =
     Some ((Some (-2), Some (-2)), (Some 2, Some 6))"
  by (simp add: mapBounds_def routeEndpoints_def sample_route_def num2_simps num_less_def
      num_le_def Let_def)


subsection \<open>Flights with an unknown airport\<close>



















end
